theory Spec2Isabelle
  imports Main "HOL-Library.Sublist"
begin

section \<open>Strings, bytes and runes\<close>

text \<open>
  A Go string is a sequence of bytes, modelled as a \<open>string\<close> (a list of 8-bit characters).
  Lengths, offsets and slices count bytes. A rune is a Unicode code point held in a signed
  integer; buffer offsets are Go \<open>int\<close>s (64 bit), modelled as unbounded integers, since an
  offset never exceeds the length of a string held in memory.

  The repository relies on the language's iteration over strings and on functions of the
  packages \<open>strings\<close> and \<open>bufio\<close>. Those it needs are defined here as Go documents them,
  under their Go names. \<open>strings.ToLower\<close> and \<open>strings.TrimSpace\<close>, which depend on the
  Unicode tables, are parameters of the functions that call them.
\<close>

type_synonym rune = int

definition byte :: "char \<Rightarrow> int" where
  "byte c = of_char c"

definition RuneError :: rune where
  "RuneError = 65533"

definition is_cont :: "char \<Rightarrow> bool" where
  "is_cont c = (128 \<le> byte c \<and> byte c \<le> 191)"

text \<open>
  The decoding step of \<open>for i, r := range s\<close>: the first code point of a non-empty string and
  the number of bytes it takes. An invalid or truncated UTF-8 sequence yields the replacement
  character U+FFFD and a width of one byte.
\<close>

definition second_lo :: "int \<Rightarrow> int" where
  "second_lo b0 = (if b0 = 224 then 160 else if b0 = 240 then 144 else 128)"

definition second_hi :: "int \<Rightarrow> int" where
  "second_hi b0 = (if b0 = 237 then 159 else if b0 = 244 then 143 else 191)"

fun DecodeRune :: "string \<Rightarrow> rune \<times> nat" where
  "DecodeRune [] = (RuneError, 0)"
| "DecodeRune (c0 # cs) =
     (let b0 = byte c0 in
      if b0 < 128 then (b0, 1)
      else if 194 \<le> b0 \<and> b0 \<le> 223 then
        (case cs of
           c1 # _ \<Rightarrow>
             if is_cont c1 then ((b0 - 192) * 64 + (byte c1 - 128), 2) else (RuneError, 1)
         | _ \<Rightarrow> (RuneError, 1))
      else if 224 \<le> b0 \<and> b0 \<le> 239 then
        (case cs of
           c1 # c2 # _ \<Rightarrow>
             if second_lo b0 \<le> byte c1 \<and> byte c1 \<le> second_hi b0 \<and> is_cont c2
             then ((b0 - 224) * 4096 + (byte c1 - 128) * 64 + (byte c2 - 128), 3)
             else (RuneError, 1)
         | _ \<Rightarrow> (RuneError, 1))
      else if 240 \<le> b0 \<and> b0 \<le> 244 then
        (case cs of
           c1 # c2 # c3 # _ \<Rightarrow>
             if second_lo b0 \<le> byte c1 \<and> byte c1 \<le> second_hi b0 \<and> is_cont c2 \<and> is_cont c3
             then ((b0 - 240) * 262144 + (byte c1 - 128) * 4096 + (byte c2 - 128) * 64
                   + (byte c3 - 128), 4)
             else (RuneError, 1)
         | _ \<Rightarrow> (RuneError, 1))
      else (RuneError, 1))"

text \<open>
  \<open>range_from i s\<close> lists the pairs (byte index, rune) that \<open>for i, r := range s\<close> visits,
  the first index being \<open>i\<close>.
\<close>

fun range_from :: "nat \<Rightarrow> string \<Rightarrow> (nat \<times> rune) list" where
  "range_from i [] = []"
| "range_from i (c # cs) =
     (i, fst (DecodeRune (c # cs)))
       # range_from (i + snd (DecodeRune (c # cs))) (drop (snd (DecodeRune (c # cs)) - 1) cs)"

definition range_string :: "string \<Rightarrow> (nat \<times> rune) list" where
  "range_string s = range_from 0 s"

text \<open>The conversion \<open>string(r)\<close>: the UTF-8 encoding of a rune, U+FFFD for an invalid one.\<close>

definition string_of_rune :: "rune \<Rightarrow> string" where
  "string_of_rune r =
     (if 0 \<le> r \<and> r < 128 then [char_of r]
      else if 0 \<le> r \<and> r < 2048 then [char_of (192 + r div 64), char_of (128 + r mod 64)]
      else if r < 0 \<or> 1114111 < r \<or> (55296 \<le> r \<and> r \<le> 57343)
        then [char_of (239::int), char_of (191::int), char_of (189::int)]
      else if r < 65536
        then [char_of (224 + r div 4096), char_of (128 + (r div 64) mod 64),
              char_of (128 + r mod 64)]
      else [char_of (240 + r div 262144), char_of (128 + (r div 4096) mod 64),
            char_of (128 + (r div 64) mod 64), char_of (128 + r mod 64)])"

text \<open>\<open>strings.HasPrefix\<close> and \<open>strings.Index\<close> (the index of the first occurrence, or -1).\<close>

definition HasPrefix :: "string \<Rightarrow> string \<Rightarrow> bool" where
  "HasPrefix s pre = (take (length pre) s = pre)"

fun Index_from :: "nat \<Rightarrow> string \<Rightarrow> string \<Rightarrow> int" where
  "Index_from i [] sub = (if sub = [] then int i else -1)"
| "Index_from i (c # cs) sub =
     (if HasPrefix (c # cs) sub then int i else Index_from (Suc i) cs sub)"

definition Index :: "string \<Rightarrow> string \<Rightarrow> int" where
  "Index s sub = Index_from 0 s sub"

section \<open>Dialect parameters\<close>

record Params =
  Whitespace :: string
  DefaultDelim :: string
  Quotes :: string
  BackslashEscapedQuotes :: bool
  DefaultQuote :: rune
  InlineComment :: rune
  AlwaysQuoteStrings :: bool

text \<open>\<open>generic.NewParams\<close>, which \<open>hba.NewParams\<close> repeats field by field.\<close>

definition NewParams :: Params where
  "NewParams = \<lparr> Whitespace = [CHR '' '', CHR 0x09, CHR 0x0D], DefaultDelim = [CHR 0x09],
     Quotes = [CHR 0x22, CHR 0x27], BackslashEscapedQuotes = True, DefaultQuote = 34,
     InlineComment = 35, AlwaysQuoteStrings = False \<rparr>"

text \<open>\<open>conf.NewParams\<close>: the dialect of postgresql.conf, where \<open>=\<close> separates like a blank.\<close>

definition conf_NewParams :: Params where
  "conf_NewParams = \<lparr> Whitespace = [CHR '' '', CHR 0x09, CHR 0x0D, CHR ''=''],
     DefaultDelim = '' = '', Quotes = [CHR 0x22, CHR 0x27], BackslashEscapedQuotes = True,
     DefaultQuote = 39, InlineComment = 35, AlwaysQuoteStrings = True \<rparr>"

section \<open>Tokens and rows\<close>

datatype error =
    ErrKeyNotFound
  | ErrEmptyLine
  | ErrKeyWithoutValue
  | ErrNilRow
  | ErrInvalidColumn int
  | ErrInvalidToken
  | ErrEmptySize int
  | ErrUnknownBoolean
  | ErrAppendFailed
  | PanicSliceBounds

record Token =
  Start :: int
  End :: int

text \<open>\<open>Token.ValueSize\<close>: the three rejected geometries share the error \<open>ErrInvalidToken\<close>.\<close>

definition ValueSize :: "Token \<Rightarrow> error + int" where
  "ValueSize t =
     (if Start t = -1 then Inl ErrInvalidToken
      else if End t = -1 then Inl ErrInvalidToken
      else if Start t > End t then Inl ErrInvalidToken
      else Inr (End t - Start t))"

record Row =
  tokens :: "Token list"

definition newRow :: Row where
  "newRow = \<lparr> tokens = [] \<rparr>"

definition ColCount :: "Row \<Rightarrow> int" where
  "ColCount r = int (length (tokens r))"

definition HasColumn :: "Row \<Rightarrow> int \<Rightarrow> bool" where
  "HasColumn r col = (col \<ge> 0 \<and> col < int (length (tokens r)))"

definition addToken :: "Row \<Rightarrow> int \<Rightarrow> int \<Rightarrow> Row" where
  "addToken r s e = r\<lparr> tokens := tokens r @ [\<lparr> Start = s, End = e \<rparr>] \<rparr>"

definition Row_Token :: "Row \<Rightarrow> int \<Rightarrow> error + Token" where
  "Row_Token r col =
     (if \<not> HasColumn r col then Inl (ErrInvalidColumn col) else Inr (tokens r ! nat col))"

section \<open>The line tokenizer\<close>

text \<open>The local variables of \<open>parseLine\<close> that live across iterations of its loop.\<close>

record scan =
  s_row :: Row
  s_pos :: int
  s_insideQuote :: bool
  s_expectedQuote :: string
  s_lastRune :: rune
  s_start :: int
  s_end :: int

definition scan_init :: "Params \<Rightarrow> scan" where
  "scan_init p = \<lparr> s_row = newRow, s_pos = -1, s_insideQuote = False,
     s_expectedQuote = Quotes p, s_lastRune = 0, s_start = -1, s_end = -1 \<rparr>"

text \<open>
  One iteration of the loop body below the comment and end-of-line test, for the rune \<open>r\<close> at
  byte index \<open>i\<close>. The \<open>continue\<close> on a blank between columns leaves \<open>lastRune\<close> as it was.
\<close>

definition scan_step :: "Params \<Rightarrow> int \<Rightarrow> nat \<Rightarrow> rune \<Rightarrow> scan \<Rightarrow> scan" where
  "scan_step p offset i r st =
     (let pos = offset + int i;
          st1 = st\<lparr> s_pos := pos \<rparr>;
          isWhitespace = (Index (Whitespace p) (string_of_rune r) > -1);
          isQuote = (Index (s_expectedQuote st) (string_of_rune r) > -1)
      in if s_start st > -1 then
           (let st2 = (if isQuote \<and> (\<not> BackslashEscapedQuotes p \<or> s_lastRune st \<noteq> 92)
                       then (if \<not> s_insideQuote st
                             then st1\<lparr> s_insideQuote := True, s_expectedQuote := string_of_rune r \<rparr>
                             else st1\<lparr> s_insideQuote := False, s_expectedQuote := Quotes p \<rparr>)
                       else st1);
                st3 = (if isWhitespace \<and> \<not> s_insideQuote st2
                       then st2\<lparr> s_row := addToken (s_row st2) (s_start st2) pos,
                                 s_start := -1, s_end := -1 \<rparr>
                       else st2)
            in st3\<lparr> s_lastRune := r \<rparr>)
         else if isWhitespace then st1
         else
           (let st2 = st1\<lparr> s_start := pos \<rparr>;
                st3 = (if isQuote
                       then st2\<lparr> s_insideQuote := True, s_expectedQuote := string_of_rune r \<rparr>
                       else st2)
            in st3\<lparr> s_lastRune := r \<rparr>))"

fun scan_runes :: "Params \<Rightarrow> int \<Rightarrow> (nat \<times> rune) list \<Rightarrow> scan \<Rightarrow> scan" where
  "scan_runes p offset [] st = st"
| "scan_runes p offset ((i, r) # rest) st =
     (if r = InlineComment p \<or> r = 10 then st
      else scan_runes p offset rest (scan_step p offset i r st))"

text \<open>
  \<open>parseLine\<close> returns a row and an error. The error is \<open>ErrEmptyLine\<close> exactly when the row
  has no token, so the pair is modelled as a sum.
\<close>

definition scan_finish :: "scan \<Rightarrow> error + Row" where
  "scan_finish st =
     (let st1 = (if s_start st > -1 \<and> s_end st = -1
                 then st\<lparr> s_end := s_pos st + 1,
                          s_row := addToken (s_row st) (s_start st) (s_pos st + 1) \<rparr>
                 else st)
      in if s_start st1 = -1 \<and> ColCount (s_row st1) = 0 then Inl ErrEmptyLine
         else Inr (s_row st1))"

definition parseLine :: "Params \<Rightarrow> string \<Rightarrow> int \<Rightarrow> error + Row" where
  "parseLine p line offset =
     scan_finish (scan_runes p offset (range_string line) (scan_init p))"

section \<open>The buffer editor\<close>

record Conf =
  conf :: string
  params :: Params

definition New :: "string \<Rightarrow> Params \<Rightarrow> Conf" where
  "New s p = \<lparr> conf = s, params = p \<rparr>"

text \<open>
  The slice expression \<open>s[lo:hi]\<close>. Go panics unless \<open>0 \<le> lo \<le> hi \<le> len(s)\<close>; the panic is
  the outcome \<open>PanicSliceBounds\<close>.
\<close>

definition slice :: "string \<Rightarrow> int \<Rightarrow> int \<Rightarrow> error + string" where
  "slice s lo hi =
     (if 0 \<le> lo \<and> lo \<le> hi \<and> hi \<le> int (length s)
      then Inr (take (nat (hi - lo)) (drop (nat lo) s))
      else Inl PanicSliceBounds)"

text \<open>A \<open>*Row\<close> argument may be nil: it is a \<open>Row option\<close>.\<close>

definition Raw :: "Conf \<Rightarrow> Row option \<Rightarrow> int \<Rightarrow> error + string" where
  "Raw c row col =
     (case row of
        None \<Rightarrow> Inl ErrNilRow
      | Some r \<Rightarrow>
          (case Row_Token r col of
             Inl e \<Rightarrow> Inl e
           | Inr token \<Rightarrow>
               (let offset = Start token in
                case ValueSize token of
                  Inl e \<Rightarrow> Inl e
                | Inr sz \<Rightarrow>
                    if sz \<le> 0 then Inl (ErrEmptySize sz)
                    else slice (conf c) offset (offset + sz))))"

text \<open>
  \<open>SetRaw\<close> assigns the spliced string to \<open>c.conf\<close>; the model returns the updated \<open>Conf\<close>. Every
  error leaves the buffer as it was.
\<close>

definition SetRaw :: "Conf \<Rightarrow> Row option \<Rightarrow> int \<Rightarrow> string \<Rightarrow> error + Conf" where
  "SetRaw c row col v =
     (case row of
        None \<Rightarrow> Inl ErrNilRow
      | Some r \<Rightarrow>
          (case Row_Token r col of
             Inl e \<Rightarrow> Inl e
           | Inr token \<Rightarrow>
               (let offset = Start token in
                case ValueSize token of
                  Inl e \<Rightarrow> Inl e
                | Inr oldSize \<Rightarrow>
                    if oldSize \<le> 0 then Inl (ErrEmptySize oldSize)
                    else
                      (case slice (conf c) 0 offset of
                         Inl e \<Rightarrow> Inl e
                       | Inr front \<Rightarrow>
                           (case slice (conf c) (offset + oldSize) (int (length (conf c))) of
                              Inl e \<Rightarrow> Inl e
                            | Inr back \<Rightarrow> Inr (c\<lparr> conf := front @ v @ back \<rparr>))))))"

section \<open>Quoting helpers\<close>

text \<open>
  \<open>strings.Replace(s, old, new, -1)\<close>: every non-overlapping occurrence of \<open>old\<close>, from the left,
  is replaced. With an empty \<open>old\<close>, \<open>new\<close> is put in front of every rune and at the end.
\<close>

fun Replace_empty :: "string \<Rightarrow> string \<Rightarrow> string" where
  "Replace_empty [] new = new"
| "Replace_empty (c # cs) new =
     new @ c # take (snd (DecodeRune (c # cs)) - 1) cs
       @ Replace_empty (drop (snd (DecodeRune (c # cs)) - 1) cs) new"

fun Replace_from :: "string \<Rightarrow> string \<Rightarrow> string \<Rightarrow> string" where
  "Replace_from [] old new = []"
| "Replace_from (c # cs) old new =
     (if HasPrefix (c # cs) old then new @ Replace_from (drop (length old - 1) cs) old new
      else c # Replace_from cs old new)"

definition Replace :: "string \<Rightarrow> string \<Rightarrow> string \<Rightarrow> string" where
  "Replace s old new = (if old = [] then Replace_empty s new else Replace_from s old new)"

text \<open>The helpers below are methods of \<open>Conf\<close> that read nothing but \<open>c.params\<close>.\<close>

definition HasQuotesOrWhitespace :: "Params \<Rightarrow> string \<Rightarrow> bool" where
  "HasQuotesOrWhitespace p v =
     list_ex (\<lambda>(i, r). Index (Whitespace p) (string_of_rune r) > -1
                       \<or> Index (Quotes p) (string_of_rune r) > -1) (range_string v)"

definition EscapeQuotes :: "Params \<Rightarrow> string \<Rightarrow> rune \<Rightarrow> string" where
  "EscapeQuotes p v quote =
     (let single = string_of_rune quote; doubled = single @ single
      in Replace v single doubled)"

definition UnescapeQuotes :: "Params \<Rightarrow> string \<Rightarrow> rune \<Rightarrow> string" where
  "UnescapeQuotes p v quote =
     (let single = string_of_rune quote; doubled = single @ single;
          v1 = Replace v doubled single
      in if BackslashEscapedQuotes p then Replace v1 (CHR 0x5C # single) single else v1)"

definition Quote :: "Params \<Rightarrow> string \<Rightarrow> string" where
  "Quote p v =
     (let quote = DefaultQuote p
      in string_of_rune quote @ EscapeQuotes p v quote @ string_of_rune quote)"

definition Dequote :: "Params \<Rightarrow> string \<Rightarrow> string" where
  "Dequote p v =
     (if length v < 2 then v
      else let first = take 1 v in
        if Index (Quotes p) first = -1 then v
        else let last = drop (length v - 1) v in
          if last \<noteq> first then v
          else UnescapeQuotes p (take (length v - 2) (drop 1 v)) (byte (hd first)))"

section \<open>Searching rows\<close>

text \<open>
  \<open>bufio.Reader.ReadString('\n')\<close> on a reader that still holds \<open>rest\<close>: the line read, with
  its newline, and whether the read ended at the end of the input without finding one (the
  error \<open>io.EOF\<close>).
\<close>

definition ReadString :: "string \<Rightarrow> string \<times> bool" where
  "ReadString rest =
     (let line = takeWhile (\<lambda>c. c \<noteq> CHR 0x0A) rest
      in if length line < length rest then (line @ [CHR 0x0A], False) else (line, True))"

text \<open>
  The test of \<open>LookupRow\<close> on a parsed row. \<open>strings.ToLower\<close> maps by the Unicode case tables,
  which are not part of this repository: it is the parameter \<open>ToLower\<close>. When \<open>Raw\<close> fails,
  \<open>rowKey\<close> is the empty string, and \<open>&&\<close> binds tighter than \<open>||\<close>. A panic ends the call.
\<close>

definition row_matches ::
  "(string \<Rightarrow> string) \<Rightarrow> Conf \<Rightarrow> Row \<Rightarrow> int \<Rightarrow> string \<Rightarrow> bool \<Rightarrow> error + bool" where
  "row_matches ToLower c row keyCol key ignoreCase =
     (case Raw c (Some row) keyCol of
        Inl e \<Rightarrow>
          if e = PanicSliceBounds then Inl e
          else Inr (ignoreCase \<and> ToLower [] = ToLower key)
      | Inr rowKey \<Rightarrow> Inr (rowKey = key \<or> (ignoreCase \<and> ToLower rowKey = ToLower key)))"

definition line_match ::
  "(string \<Rightarrow> string) \<Rightarrow> Conf \<Rightarrow> int \<Rightarrow> string \<Rightarrow> bool \<Rightarrow> string \<Rightarrow> int
     \<Rightarrow> error + Row option" where
  "line_match ToLower c keyCol key ignoreCase line offset =
     (case parseLine (params c) line offset of
        Inl e \<Rightarrow> Inr None
      | Inr row \<Rightarrow>
          if HasColumn row keyCol then
            (case row_matches ToLower c row keyCol key ignoreCase of
               Inl e \<Rightarrow> Inl e
             | Inr m \<Rightarrow> Inr (if m then Some row else None))
          else Inr None)"

text \<open>
  The loop of \<open>LookupRow\<close>: \<open>rest\<close> is what the reader still holds, \<open>offset\<close> the offset of its
  first byte in the buffer. The result is the row and the offset of the next line.
\<close>

function LookupRow_loop ::
  "(string \<Rightarrow> string) \<Rightarrow> Conf \<Rightarrow> int \<Rightarrow> string \<Rightarrow> bool \<Rightarrow> string \<Rightarrow> int
     \<Rightarrow> error + Row \<times> int" where
  "LookupRow_loop ToLower c keyCol key ignoreCase rest offset =
     (case line_match ToLower c keyCol key ignoreCase (fst (ReadString rest)) offset of
        Inl e \<Rightarrow> Inl e
      | Inr (Some row) \<Rightarrow> Inr (row, offset + int (length (fst (ReadString rest))))
      | Inr None \<Rightarrow>
          if snd (ReadString rest) then Inl ErrKeyNotFound
          else LookupRow_loop ToLower c keyCol key ignoreCase
                 (drop (length (fst (ReadString rest))) rest)
                 (offset + int (length (fst (ReadString rest)))))"
  by pat_completeness auto

lemma ReadString_more:
  "\<not> snd (ReadString rest) \<Longrightarrow> rest \<noteq> [] \<and> fst (ReadString rest) \<noteq> []"
  by (auto simp: ReadString_def Let_def split: if_splits)

termination LookupRow_loop
proof (relation "measure (\<lambda>(ToLower, c, keyCol, key, ignoreCase, rest, offset). length rest)")
  show "wf (measure (\<lambda>(ToLower, c, keyCol, key, ignoreCase, rest, offset). length rest))"
    by simp
next
  fix ToLower :: "string \<Rightarrow> string" and c :: Conf and keyCol :: int and key :: string
    and ignoreCase :: bool and rest :: string and offset :: int
  assume "\<not> snd (ReadString rest)"
  from ReadString_more[OF this]
  show "((ToLower, c, keyCol, key, ignoreCase, drop (length (fst (ReadString rest))) rest,
          offset + int (length (fst (ReadString rest)))),
         ToLower, c, keyCol, key, ignoreCase, rest, offset)
        \<in> measure (\<lambda>(ToLower, c, keyCol, key, ignoreCase, rest, offset). length rest)"
    by (cases rest; cases "fst (ReadString rest)") simp_all
qed

declare LookupRow_loop.simps [simp del]

definition LookupRow ::
  "(string \<Rightarrow> string) \<Rightarrow> Conf \<Rightarrow> int \<Rightarrow> string \<Rightarrow> bool \<Rightarrow> int \<Rightarrow> error + Row \<times> int" where
  "LookupRow ToLower c keyCol key ignoreCase offset =
     (case slice (conf c) offset (int (length (conf c))) of
        Inl e \<Rightarrow> Inl e
      | Inr rest \<Rightarrow> LookupRow_loop ToLower c keyCol key ignoreCase rest offset)"

section \<open>Lookup by key (package conf)\<close>

definition keyCol :: int where
  "keyCol = 0"

definition valueCol :: int where
  "valueCol = 1"

text \<open>
  The loop of \<open>LookupKey\<close>: \<open>row\<close> is the last row found so far that has a value. Any error of
  \<open>LookupRow\<close> ends the loop.
\<close>

function LookupKey_loop ::
  "(string \<Rightarrow> string) \<Rightarrow> Conf \<Rightarrow> string \<Rightarrow> Row option \<Rightarrow> int \<Rightarrow> error + Row" where
  "LookupKey_loop ToLower c key row offset =
     (case LookupRow ToLower c keyCol key True offset of
        Inl e \<Rightarrow>
          if e = PanicSliceBounds then Inl e
          else (case row of None \<Rightarrow> Inl ErrKeyNotFound | Some r \<Rightarrow> Inr r)
      | Inr (r, nextOffset) \<Rightarrow>
          LookupKey_loop ToLower c key (if HasColumn r valueCol then Some r else row) nextOffset)"
  by pat_completeness auto

lemma ReadString_length: "length (fst (ReadString rest)) \<le> length rest"
  using length_takeWhile_le[of "\<lambda>c. c \<noteq> CHR 0x0A" rest]
  by (auto simp: ReadString_def Let_def)

lemma parseLine_Nil: "parseLine p [] off = Inl ErrEmptyLine"
  by (simp add: parseLine_def range_string_def scan_init_def scan_finish_def newRow_def
      ColCount_def)

lemma line_match_nonempty:
  "line_match ToLower c kc key ic line offset = Inr (Some row) \<Longrightarrow> line \<noteq> []"
  by (auto simp: line_match_def parseLine_Nil)

lemma LookupRow_loop_advances:
  "LookupRow_loop ToLower c kc key ic rest offset = Inr (r, n) \<Longrightarrow>
   offset < n \<and> n \<le> offset + int (length rest)"
proof (induction ToLower c kc key ic rest offset rule: LookupRow_loop.induct)
  case (1 ToLower c kc key ic rest offset)
  let ?line = "fst (ReadString rest)"
  show ?case
  proof (cases "line_match ToLower c kc key ic ?line offset")
    case (Inl e)
    with 1(2) show ?thesis by (simp add: LookupRow_loop.simps[of _ _ _ _ _ rest])
  next
    case (Inr m)
    show ?thesis
    proof (cases m)
      case (Some row)
      with Inr 1(2) have n: "n = offset + int (length ?line)"
        by (simp add: LookupRow_loop.simps[of _ _ _ _ _ rest])
      from Some Inr have "?line \<noteq> []" by (auto dest: line_match_nonempty)
      with n ReadString_length[of rest] show ?thesis by (cases ?line) simp_all
    next
      case None
      with Inr 1(2) have more: "\<not> snd (ReadString rest)"
        and rec: "LookupRow_loop ToLower c kc key ic (drop (length ?line) rest)
                    (offset + int (length ?line)) = Inr (r, n)"
        by (auto simp: LookupRow_loop.simps[of _ _ _ _ _ rest] split: if_splits)
      from 1(1)[OF Inr None more rec] ReadString_length[of rest] show ?thesis
        by simp
    qed
  qed
qed

lemma LookupRow_advances:
  assumes "LookupRow ToLower c kc key ic offset = Inr (r, n)"
  shows "0 \<le> offset \<and> offset < n \<and> n \<le> int (length (conf c))"
proof -
  from assms obtain rest where sl: "slice (conf c) offset (int (length (conf c))) = Inr rest"
    and lp: "LookupRow_loop ToLower c kc key ic rest offset = Inr (r, n)"
    by (auto simp: LookupRow_def split: sum.splits)
  from sl have "0 \<le> offset" "offset \<le> int (length (conf c))"
    and "rest = drop (nat offset) (conf c)"
    by (auto simp: slice_def split: if_splits)
  with LookupRow_loop_advances[OF lp] show ?thesis by auto
qed

termination LookupKey_loop
proof (relation "measure (\<lambda>(ToLower, c, key, row, offset). nat (int (length (conf c)) - offset))")
  show "wf (measure (\<lambda>(ToLower, c, key, row, offset). nat (int (length (conf c)) - offset)))"
    by simp
next
  fix ToLower :: "string \<Rightarrow> string" and c :: Conf and key :: string and row :: "Row option"
    and offset :: int and x :: "Row \<times> int" and r :: Row and nextOffset :: int
  assume "LookupRow ToLower c keyCol key True offset = Inr x" and "(r, nextOffset) = x"
  then have "LookupRow ToLower c keyCol key True offset = Inr (r, nextOffset)"
    by simp
  from LookupRow_advances[OF this]
  show "((ToLower, c, key, if HasColumn r valueCol then Some r else row, nextOffset),
         ToLower, c, key, row, offset)
        \<in> measure (\<lambda>(ToLower, c, key, row, offset). nat (int (length (conf c)) - offset))"
    by simp
qed

declare LookupKey_loop.simps [simp del]

definition LookupKey :: "(string \<Rightarrow> string) \<Rightarrow> Conf \<Rightarrow> string \<Rightarrow> error + Row" where
  "LookupKey ToLower c key = LookupKey_loop ToLower c key None 0"

section \<open>Boolean values\<close>

text \<open>
  The decision chain of \<open>conf.BoolK\<close>, which \<open>pgconf.AsBool\<close> repeats word for word, on the
  value after dequoting, \<open>strings.TrimSpace\<close> and \<open>strings.ToLower\<close>.
\<close>

definition BoolK_value :: "string \<Rightarrow> error + bool" where
  "BoolK_value v =
     (if v = ''on'' then Inr True
      else if HasPrefix v ''of'' then Inr False
      else if HasPrefix v ''t'' then Inr True
      else if HasPrefix v ''f'' then Inr False
      else if HasPrefix v ''y'' then Inr True
      else if HasPrefix v ''n'' then Inr False
      else if v = ''1'' then Inr True
      else if v = ''0'' then Inr False
      else Inl ErrUnknownBoolean)"

section \<open>Appending rows and setting values by key\<close>

text \<open>
  The operations below assign to \<open>c.conf\<close> and may fail after doing so: they return their
  result together with the \<open>Conf\<close> they leave behind.
\<close>

definition EnsureEndsWithEOL :: "Conf \<Rightarrow> Conf" where
  "EnsureEndsWithEOL c =
     (if conf c = [] then c
      else if last (conf c) = CHR 0x0A then c
      else c\<lparr> conf := conf c @ [CHR 0x0A] \<rparr>)"

fun join_values :: "string \<Rightarrow> string list \<Rightarrow> string" where
  "join_values delim [] = []"
| "join_values delim [v] = v"
| "join_values delim (v # vs) = v @ delim @ join_values delim vs"

definition Append :: "Conf \<Rightarrow> string list \<Rightarrow> (error + Row) \<times> Conf" where
  "Append c vals =
     (let c1 = EnsureEndsWithEOL c;
          line = join_values (DefaultDelim (params c1)) vals;
          writePos = int (length (conf c1))
      in case parseLine (params c1) line writePos of
           Inl e \<Rightarrow> (Inl ErrAppendFailed, c1)
         | Inr row \<Rightarrow> (Inr row, c1\<lparr> conf := conf c1 @ line \<rparr>))"

definition LookupOrAppendK ::
  "(string \<Rightarrow> string) \<Rightarrow> Conf \<Rightarrow> string \<Rightarrow> (error + Row) \<times> Conf" where
  "LookupOrAppendK ToLower c key =
     (case LookupKey ToLower c key of
        Inl e \<Rightarrow> if e = ErrKeyNotFound then Append c [key, [CHR 0x27, CHR 0x27]] else (Inl e, c)
      | Inr row \<Rightarrow> (Inr row, c))"

text \<open>
  \<open>SetRawK\<close>; the error is \<open>None\<close> for \<open>nil\<close>.
\<close>

definition SetRawK ::
  "(string \<Rightarrow> string) \<Rightarrow> Conf \<Rightarrow> string \<Rightarrow> string \<Rightarrow> error option \<times> Conf" where
  "SetRawK ToLower c key v =
     (case LookupOrAppendK ToLower c key of
        (Inl e, c1) \<Rightarrow> (Some e, c1)
      | (Inr row, c1) \<Rightarrow>
          (case SetRaw c1 (Some row) valueCol v of
             Inl e \<Rightarrow> (Some e, c1)
           | Inr c2 \<Rightarrow> (None, c2)))"

definition SetString :: "Conf \<Rightarrow> Row option \<Rightarrow> int \<Rightarrow> string \<Rightarrow> error + Conf" where
  "SetString c row col v =
     (let raw = (if AlwaysQuoteStrings (params c) \<or> HasQuotesOrWhitespace (params c) v
                 then Quote (params c) v else v)
      in SetRaw c row col raw)"

definition SetStringK ::
  "(string \<Rightarrow> string) \<Rightarrow> Conf \<Rightarrow> string \<Rightarrow> string \<Rightarrow> error option \<times> Conf" where
  "SetStringK ToLower c key v =
     (case LookupOrAppendK ToLower c key of
        (Inl e, c1) \<Rightarrow> (Some e, c1)
      | (Inr row, c1) \<Rightarrow>
          (case SetString c1 (Some row) valueCol v of
             Inl e \<Rightarrow> (Some e, c1)
           | Inr c2 \<Rightarrow> (None, c2)))"

text \<open>
  \<open>strconv.Itoa\<close>, which is \<open>strconv.FormatInt\<close> in base 10: the decimal digits of the value,
  after a minus sign when it is negative.
\<close>

fun decimal_digits :: "nat \<Rightarrow> string" where
  "decimal_digits n =
     (if n < 10 then [char_of (48 + n)]
      else decimal_digits (n div 10) @ [char_of (48 + n mod 10)])"

definition Itoa :: "int \<Rightarrow> string" where
  "Itoa i = (if i < 0 then CHR ''-'' # decimal_digits (nat (- i)) else decimal_digits (nat i))"

definition SetInt :: "Conf \<Rightarrow> Row option \<Rightarrow> int \<Rightarrow> int \<Rightarrow> error + Conf" where
  "SetInt c row col v = (let raw = Itoa v in SetRaw c row col raw)"

definition SetInt64 :: "Conf \<Rightarrow> Row option \<Rightarrow> int \<Rightarrow> int \<Rightarrow> error + Conf" where
  "SetInt64 c row col v = (let raw = Itoa v in SetRaw c row col raw)"

text \<open>
  \<open>SetFloat64\<close> formats its value with \<open>strconv.FormatFloat(value, 'f', -1, 64)\<close>. The
  formatter and the type of floating point numbers are parameters: what is written is
  whatever text the formatter returns.
\<close>

definition SetFloat64 ::
  "('f \<Rightarrow> string) \<Rightarrow> Conf \<Rightarrow> Row option \<Rightarrow> int \<Rightarrow> 'f \<Rightarrow> error + Conf" where
  "SetFloat64 FormatFloat c row col v = (let raw = FormatFloat v in SetRaw c row col raw)"

definition SetIntK ::
  "(string \<Rightarrow> string) \<Rightarrow> Conf \<Rightarrow> string \<Rightarrow> int \<Rightarrow> error option \<times> Conf" where
  "SetIntK ToLower c key v =
     (case LookupOrAppendK ToLower c key of
        (Inl e, c1) \<Rightarrow> (Some e, c1)
      | (Inr row, c1) \<Rightarrow>
          (case SetInt c1 (Some row) valueCol v of
             Inl e \<Rightarrow> (Some e, c1)
           | Inr c2 \<Rightarrow> (None, c2)))"

definition SetInt64K ::
  "(string \<Rightarrow> string) \<Rightarrow> Conf \<Rightarrow> string \<Rightarrow> int \<Rightarrow> error option \<times> Conf" where
  "SetInt64K ToLower c key v =
     (case LookupOrAppendK ToLower c key of
        (Inl e, c1) \<Rightarrow> (Some e, c1)
      | (Inr row, c1) \<Rightarrow>
          (case SetInt64 c1 (Some row) valueCol v of
             Inl e \<Rightarrow> (Some e, c1)
           | Inr c2 \<Rightarrow> (None, c2)))"

definition SetFloat64K ::
  "('f \<Rightarrow> string) \<Rightarrow> (string \<Rightarrow> string) \<Rightarrow> Conf \<Rightarrow> string \<Rightarrow> 'f
     \<Rightarrow> error option \<times> Conf" where
  "SetFloat64K FormatFloat ToLower c key v =
     (case LookupOrAppendK ToLower c key of
        (Inl e, c1) \<Rightarrow> (Some e, c1)
      | (Inr row, c1) \<Rightarrow>
          (case SetFloat64 FormatFloat c1 (Some row) valueCol v of
             Inl e \<Rightarrow> (Some e, c1)
           | Inr c2 \<Rightarrow> (None, c2)))"

definition SetTrueFalseK ::
  "(string \<Rightarrow> string) \<Rightarrow> Conf \<Rightarrow> string \<Rightarrow> bool \<Rightarrow> error option \<times> Conf" where
  "SetTrueFalseK ToLower c key v =
     (let raw = (if v then ''true'' else ''false'') in SetRawK ToLower c key raw)"

definition SetOnOffK ::
  "(string \<Rightarrow> string) \<Rightarrow> Conf \<Rightarrow> string \<Rightarrow> bool \<Rightarrow> error option \<times> Conf" where
  "SetOnOffK ToLower c key v =
     (let raw = (if v then ''on'' else ''off'') in SetRawK ToLower c key raw)"

definition SetYesNoK ::
  "(string \<Rightarrow> string) \<Rightarrow> Conf \<Rightarrow> string \<Rightarrow> bool \<Rightarrow> error option \<times> Conf" where
  "SetYesNoK ToLower c key v =
     (let raw = (if v then ''yes'' else ''no'') in SetRawK ToLower c key raw)"

section \<open>Typed reads by key\<close>

definition String :: "Conf \<Rightarrow> Row option \<Rightarrow> int \<Rightarrow> error + string" where
  "String c row col =
     (case Raw c row col of
        Inl e \<Rightarrow> Inl e
      | Inr v \<Rightarrow> Inr (Dequote (params c) v))"

definition StringK :: "(string \<Rightarrow> string) \<Rightarrow> Conf \<Rightarrow> string \<Rightarrow> error + string" where
  "StringK ToLower c key =
     (case LookupKey ToLower c key of
        Inl e \<Rightarrow> Inl e
      | Inr row \<Rightarrow> String c (Some row) valueCol)"

text \<open>
  \<open>BoolK\<close>. \<open>strings.TrimSpace\<close> removes Unicode white space at both ends; like \<open>ToLower\<close> it
  comes from tables outside this repository and is a parameter.
\<close>

definition BoolK ::
  "(string \<Rightarrow> string) \<Rightarrow> (string \<Rightarrow> string) \<Rightarrow> Conf \<Rightarrow> string \<Rightarrow> error + bool" where
  "BoolK TrimSpace ToLower c key =
     (case StringK ToLower c key of
        Inl e \<Rightarrow> Inl e
      | Inr v \<Rightarrow> BoolK_value (ToLower (TrimSpace v)))"

section \<open>Invariant of the scan\<close>

text \<open>
  \<open>scan_inv off n st\<close>: the state \<open>st\<close> of a scan of a line that starts at offset \<open>off\<close>, after
  runes at byte indices below \<open>n\<close> only. Every recorded token is a non-empty range that ends
  before \<open>off + n\<close>, and an open column starts at or before the last position.
\<close>

definition scan_inv :: "int \<Rightarrow> nat \<Rightarrow> scan \<Rightarrow> bool" where
  "scan_inv off n st =
     (s_end st = -1
      \<and> (\<forall>t \<in> set (tokens (s_row st)).
            -1 < Start t \<and> off \<le> Start t \<and> Start t < End t \<and> End t < off + int n)
      \<and> (s_start st > -1 \<longrightarrow>
            off \<le> s_start st \<and> s_start st \<le> s_pos st \<and> s_pos st < off + int n))"

text \<open>
  A scan is \<open>blank\<close> while it has seen no column content, and \<open>started\<close> once a column is
  open or a token is recorded.
\<close>

definition blank :: "scan \<Rightarrow> bool" where
  "blank st = (s_start st = -1 \<and> tokens (s_row st) = [] \<and> s_end st = -1)"

definition started :: "scan \<Rightarrow> bool" where
  "started st = ((s_start st > -1 \<or> tokens (s_row st) \<noteq> []) \<and> s_end st = -1)"

text \<open>
  \<open>inbuf c rest offset\<close>: a reader over the buffer of \<open>c\<close> that has consumed \<open>offset\<close> bytes
  still holds \<open>rest\<close>.
\<close>

definition inbuf :: "Conf \<Rightarrow> string \<Rightarrow> int \<Rightarrow> bool" where
  "inbuf c rest offset =
     (0 \<le> offset \<and> offset \<le> int (length (conf c)) \<and> rest = drop (nat offset) (conf c))"

section \<open>Reference definitions of the specified behaviour\<close>

text \<open>
  Dequoting as the specification words it, for a dialect whose quote characters are the double
  and the single quote and that has backslash-escaping enabled: one layer of enclosing quotes
  comes off when the first and the last character are the same quote character; then doubled
  quote characters collapse to one, and after that backslash-quote collapses to the quote.
\<close>

fun collapse_doubled :: "char \<Rightarrow> string \<Rightarrow> string" where
  "collapse_doubled q (a # b # cs) =
     (if a = q \<and> b = q then q # collapse_doubled q cs else a # collapse_doubled q (b # cs))"
| "collapse_doubled q cs = cs"

fun collapse_escaped :: "char \<Rightarrow> string \<Rightarrow> string" where
  "collapse_escaped q (a # b # cs) =
     (if a = CHR 0x5C \<and> b = q then q # collapse_escaped q cs
      else a # collapse_escaped q (b # cs))"
| "collapse_escaped q cs = cs"

definition spec_Dequote :: "string \<Rightarrow> string" where
  "spec_Dequote v =
     (if 2 \<le> length v \<and> (hd v = CHR 0x22 \<or> hd v = CHR 0x27) \<and> last v = hd v
      then collapse_escaped (hd v) (collapse_doubled (hd v) (butlast (tl v)))
      else v)"

text \<open>
  Boolean parsing as the specification words it: the first match decides, in the order exact
  \<open>on\<close>, non-empty prefix of \<open>off\<close>, of \<open>true\<close>, of \<open>false\<close>, of \<open>yes\<close>, of \<open>no\<close>, exact \<open>1\<close>,
  exact \<open>0\<close>; any other string fails.
\<close>

definition nonempty_prefix_of :: "string \<Rightarrow> string \<Rightarrow> bool" where
  "nonempty_prefix_of v w = (v \<noteq> [] \<and> HasPrefix w v)"

definition spec_bool :: "string \<Rightarrow> error + bool" where
  "spec_bool v =
     (if v = ''on'' then Inr True
      else if nonempty_prefix_of v ''off'' then Inr False
      else if nonempty_prefix_of v ''true'' then Inr True
      else if nonempty_prefix_of v ''false'' then Inr False
      else if nonempty_prefix_of v ''yes'' then Inr True
      else if nonempty_prefix_of v ''no'' then Inr False
      else if v = ''1'' then Inr True
      else if v = ''0'' then Inr False
      else Inl ErrUnknownBoolean)"

text \<open>
  The byte index of the first inline-comment character or newline among the runes of a line;
  \<open>n\<close>, the length of the line, when there is none.
\<close>

fun stop_index :: "Params \<Rightarrow> (nat \<times> rune) list \<Rightarrow> nat \<Rightarrow> nat" where
  "stop_index p [] n = n"
| "stop_index p ((i, r) # rs) n =
     (if r = InlineComment p \<or> r = 10 then i else stop_index p rs n)"

definition first_stop :: "Params \<Rightarrow> string \<Rightarrow> nat" where
  "first_stop p line = stop_index p (range_string line) (length line)"

text \<open>
  A line has no column content when every rune before the first inline-comment character or
  newline is a whitespace character of the dialect.
\<close>

definition isWhitespace :: "Params \<Rightarrow> rune \<Rightarrow> bool" where
  "isWhitespace p r = (Index (Whitespace p) (string_of_rune r) > -1)"

definition content_runes :: "Params \<Rightarrow> string \<Rightarrow> rune list" where
  "content_runes p line =
     map snd (takeWhile (\<lambda>(i, r). r \<noteq> InlineComment p \<and> r \<noteq> 10) (range_string line))"

definition no_column_content :: "Params \<Rightarrow> string \<Rightarrow> bool" where
  "no_column_content p line = list_all (isWhitespace p) (content_runes p line)"

text \<open>
  The lines of a buffer, each with its terminating newline when it has one, paired with the
  byte offset at which it begins. A buffer that ends with a newline has an empty last line.
\<close>

fun split_lines :: "string \<Rightarrow> string list" where
  "split_lines [] = [] # []"
| "split_lines (c # cs) =
     (if c = CHR 0x0A then [c] # split_lines cs
      else (case split_lines cs of [] \<Rightarrow> [c] # [] | l # ls \<Rightarrow> (c # l) # ls))"

fun with_offsets :: "int \<Rightarrow> string list \<Rightarrow> (string \<times> int) list" where
  "with_offsets off [] = []"
| "with_offsets off (l # ls) = (l, off) # with_offsets (off + int (length l)) ls"

definition buffer_lines :: "string \<Rightarrow> (string \<times> int) list" where
  "buffer_lines s = with_offsets 0 (split_lines s)"

text \<open>
  The key-indexed lookup as the specification words it. A row matches the key when the raw
  text of its key column equals the key case-insensitively. The rows of the buffer that match,
  in buffer order, are \<open>matching_rows\<close>; those of them that have a value column are
  \<open>value_rows\<close>; the lookup returns the last of these, or fails with \<open>ErrKeyNotFound\<close> when
  there is none.
\<close>

definition key_matches :: "(string \<Rightarrow> string) \<Rightarrow> Conf \<Rightarrow> Row \<Rightarrow> string \<Rightarrow> bool" where
  "key_matches ToLower c row key =
     (case Raw c (Some row) keyCol of
        Inl e \<Rightarrow> False
      | Inr raw \<Rightarrow> ToLower raw = ToLower key)"

definition line_row :: "(string \<Rightarrow> string) \<Rightarrow> Conf \<Rightarrow> string \<Rightarrow> string \<times> int \<Rightarrow> Row option" where
  "line_row ToLower c key l =
     (case parseLine (params c) (fst l) (snd l) of
        Inl e \<Rightarrow> None
      | Inr row \<Rightarrow>
          if HasColumn row keyCol \<and> key_matches ToLower c row key then Some row else None)"

definition matching_rows :: "(string \<Rightarrow> string) \<Rightarrow> Conf \<Rightarrow> string \<Rightarrow> Row list" where
  "matching_rows ToLower c key = List.map_filter (line_row ToLower c key) (buffer_lines (conf c))"

definition value_rows :: "(string \<Rightarrow> string) \<Rightarrow> Conf \<Rightarrow> string \<Rightarrow> Row list" where
  "value_rows ToLower c key = filter (\<lambda>row. HasColumn row valueCol) (matching_rows ToLower c key)"

definition spec_LookupKey :: "(string \<Rightarrow> string) \<Rightarrow> Conf \<Rightarrow> string \<Rightarrow> error + Row" where
  "spec_LookupKey ToLower c key =
     (if value_rows ToLower c key = [] then Inl ErrKeyNotFound
      else Inr (last (value_rows ToLower c key)))"

text \<open>\<open>strings.ToLower\<close> on a string of ASCII characters, for concrete runs.\<close>

definition ascii_ToLower :: "string \<Rightarrow> string" where
  "ascii_ToLower s =
     map (\<lambda>ch. if 65 \<le> byte ch \<and> byte ch \<le> 90 then char_of (byte ch + 32) else ch) s"

text \<open>
  What \<open>EnsureEndsWithEOL\<close> adds to a buffer: a newline, unless the buffer is empty or ends
  with one.
\<close>

definition eol_of :: "string \<Rightarrow> string" where
  "eol_of s = (if s = [] \<or> last s = CHR 0x0A then [] else [CHR 0x0A])"

section \<open>Token ranges of a parsed line\<close>

lemma decode_width_pos: "1 \<le> snd (DecodeRune (c # cs))"
  by (simp add: Let_def split: list.splits)

lemma decode_width_le: "snd (DecodeRune (c # cs)) \<le> Suc (length cs)"
  by (simp add: Let_def split: list.splits)

lemma scan_inv_init: "scan_inv off 0 (scan_init p)"
  by (simp add: scan_inv_def scan_init_def newRow_def)

lemma scan_inv_step:
  "scan_inv off i st \<Longrightarrow> i < n \<Longrightarrow> scan_inv off n (scan_step p off i r st)"
  unfolding scan_inv_def scan_step_def Let_def addToken_def
  by auto

lemma stop_index_range_le: "stop_index p (range_from i s) (i + length s) \<le> i + length s"
proof (induction i s rule: range_from.induct)
  case (1 i)
  then show ?case by simp
next
  case (2 i c cs)
  let ?w = "snd (DecodeRune (c # cs))"
  have w: "1 \<le> ?w" "?w \<le> Suc (length cs)"
    using decode_width_pos decode_width_le by blast+
  then have "i + ?w + length (drop (?w - 1) cs) = i + length (c # cs)"
    by simp
  with 2 show ?case by (simp del: DecodeRune.simps)
qed

lemma scan_inv_runes:
  "scan_inv off i st \<Longrightarrow>
   scan_inv off (stop_index p (range_from i s) (i + length s))
     (scan_runes p off (range_from i s) st)"
proof (induction i s arbitrary: st rule: range_from.induct)
  case (1 i)
  then show ?case by simp
next
  case (2 i c cs)
  let ?w = "snd (DecodeRune (c # cs))"
  let ?r = "fst (DecodeRune (c # cs))"
  have w: "1 \<le> ?w" "?w \<le> Suc (length cs)"
    using decode_width_pos decode_width_le by blast+
  show ?case
  proof (cases "?r = InlineComment p \<or> ?r = 10")
    case True
    then show ?thesis using 2(2) by (simp del: DecodeRune.simps)
  next
    case False
    have "scan_inv off (i + ?w) (scan_step p off i ?r st)"
      using 2(2) w by (intro scan_inv_step) auto
    from 2(1)[OF this]
    have "scan_inv off
            (stop_index p (range_from (i + ?w) (drop (?w - 1) cs))
               (i + ?w + length (drop (?w - 1) cs)))
            (scan_runes p off (range_from (i + ?w) (drop (?w - 1) cs))
               (scan_step p off i ?r st))" .
    moreover have "i + ?w + length (drop (?w - 1) cs) = i + length (c # cs)"
      using w by simp
    ultimately show ?thesis using False by (simp del: DecodeRune.simps)
  qed
qed

lemma scan_finish_tokens:
  assumes "scan_inv off n st" and "scan_finish st = Inr row" and "t \<in> set (tokens row)"
  shows "-1 < Start t \<and> off \<le> Start t \<and> Start t < End t \<and> End t \<le> off + int n"
proof (cases "s_start st > -1")
  case True
  with assms(1) have row:
    "tokens row = tokens (s_row st) @ [\<lparr> Start = s_start st, End = s_pos st + 1 \<rparr>]"
    using assms(2)
    by (auto simp: scan_finish_def scan_inv_def addToken_def Let_def split: if_splits)
  from assms(3) consider "t \<in> set (tokens (s_row st))"
    | "t = \<lparr> Start = s_start st, End = s_pos st + 1 \<rparr>"
    unfolding row by auto
  then show ?thesis
  proof cases
    case 1
    with assms(1) show ?thesis by (fastforce simp: scan_inv_def)
  next
    case 2
    with assms(1) True show ?thesis by (simp add: scan_inv_def)
  qed
next
  case False
  with assms(2) have "row = s_row st"
    by (auto simp: scan_finish_def Let_def split: if_splits)
  with assms(1,3) show ?thesis by (fastforce simp: scan_inv_def)
qed

lemma first_stop_le: "first_stop p line \<le> length line"
  using stop_index_range_le[of p 0 line] by (simp add: first_stop_def range_string_def)

lemma parseLine_tokens_stop:
  assumes "parseLine p line off = Inr row" and "t \<in> set (tokens row)"
  shows "-1 < Start t \<and> off \<le> Start t \<and> Start t < End t
         \<and> End t \<le> off + int (first_stop p line)"
proof -
  let ?st = "scan_runes p off (range_string line) (scan_init p)"
  have inv: "scan_inv off (first_stop p line) ?st"
    using scan_inv_runes[OF scan_inv_init, of off p line]
    by (simp add: range_string_def first_stop_def)
  from assms(1) have "scan_finish ?st = Inr row" by (simp add: parseLine_def)
  from scan_finish_tokens[OF inv this assms(2)] show ?thesis .
qed

lemma parseLine_tokens:
  assumes "parseLine p line off = Inr row" and "t \<in> set (tokens row)"
  shows "-1 < Start t \<and> off \<le> Start t \<and> Start t < End t \<and> End t \<le> off + int (length line)"
  using parseLine_tokens_stop[OF assms] first_stop_le[of p line] by simp

lemma HasColumn_token: "HasColumn row col \<Longrightarrow> tokens row ! nat col \<in> set (tokens row)"
  by (simp add: HasColumn_def nat_less_iff)

lemma Raw_in_bounds:
  assumes "HasColumn row col" and "t = tokens row ! nat col"
    and "0 \<le> Start t" and "Start t < End t" and "End t \<le> int (length (conf c))"
  shows "Raw c (Some row) col = Inr (take (nat (End t - Start t)) (drop (nat (Start t)) (conf c)))"
  using assms by (simp add: Raw_def Row_Token_def ValueSize_def slice_def Let_def)

section \<open>Facts about the iteration over runes\<close>

lemma second_lo_ge: "128 \<le> second_lo b"
  by (simp add: second_lo_def)

lemma decode_shape:
  "snd (DecodeRune (c # cs)) = 1
   \<or> (\<exists>c1 r. cs = c1 # r \<and> 128 \<le> byte c1 \<and> snd (DecodeRune (c # cs)) = 2)
   \<or> (\<exists>c1 c2 r. cs = c1 # c2 # r \<and> 128 \<le> byte c1 \<and> 128 \<le> byte c2
         \<and> snd (DecodeRune (c # cs)) = 3)
   \<or> (\<exists>c1 c2 c3 r. cs = c1 # c2 # c3 # r \<and> 128 \<le> byte c1 \<and> 128 \<le> byte c2
         \<and> 128 \<le> byte c3 \<and> snd (DecodeRune (c # cs)) = 4)"
  using second_lo_ge[of "byte c"]
  by (cases cs; cases "tl cs"; cases "tl (tl cs)") (auto simp: Let_def is_cont_def)

lemma decode_consumed:
  assumes "x \<in> set (take (snd (DecodeRune (c # cs)) - 1) cs)"
  shows "128 \<le> byte x"
  using decode_shape[of c cs] assms
  by (elim disjE exE conjE) (auto simp del: DecodeRune.simps simp: numeral_eq_Suc)

lemma decode_append_ascii:
  assumes "byte c < 128"
  shows "DecodeRune (x # xs @ c # b) = DecodeRune (x # xs)"
proof -
  have nc: "\<not> is_cont c" "\<And>b0. \<not> second_lo b0 \<le> byte c"
    using assms by (simp_all add: is_cont_def second_lo_def)
  show ?thesis
    by (cases xs; cases "tl xs"; cases "tl (tl xs)") (simp_all add: Let_def nc split: list.splits)
qed

lemma range_from_append_ascii:
  "byte c < 128 \<Longrightarrow>
   range_from i (a @ c # b)
     = range_from i a @ (i + length a, byte c) # range_from (i + length a + 1) b"
proof (induction i a rule: range_from.induct)
  case (1 i)
  then show ?case by simp
next
  case (2 i x xs)
  let ?w = "snd (DecodeRune (x # xs))"
  let ?r = "fst (DecodeRune (x # xs))"
  let ?rest = "drop (?w - 1) xs"
  have w: "1 \<le> ?w" "?w \<le> Suc (length xs)"
    using decode_width_pos decode_width_le by blast+
  have d: "DecodeRune (x # xs @ c # b) = DecodeRune (x # xs)"
    using 2(2) by (rule decode_append_ascii)
  have dr: "drop (?w - 1) (xs @ c # b) = ?rest @ c # b"
    using w by simp
  have len: "i + ?w + length ?rest = i + length (x # xs)"
    using w by simp
  have "range_from i ((x # xs) @ c # b) = (i, ?r) # range_from (i + ?w) (?rest @ c # b)"
    by (simp only: append_Cons range_from.simps d dr)
  also have "range_from (i + ?w) (?rest @ c # b)
      = range_from (i + ?w) ?rest @ (i + ?w + length ?rest, byte c)
          # range_from (i + ?w + length ?rest + 1) b"
    using 2(1)[OF 2(2)] .
  also have "(i, ?r) # (range_from (i + ?w) ?rest @ (i + ?w + length ?rest, byte c)
          # range_from (i + ?w + length ?rest + 1) b)
      = range_from i (x # xs) @ (i + length (x # xs), byte c)
          # range_from (i + length (x # xs) + 1) b"
    by (simp only: len range_from.simps append_Cons)
  finally show ?case .
qed

section \<open>Claims about token ranges\<close>

text \<open>
  Claim C10. Every token of a row that \<open>parseLine\<close> returns for a line beginning at byte offset
  \<open>off\<close> satisfies \<open>off \<le> Start < End \<le> off + length line\<close>. Hence \<open>ValueSize\<close> of the token is
  its strictly positive length, and neither \<open>Raw\<close> nor \<open>SetRaw\<close>, on whatever buffer, takes the
  "size \<le> 0" branch or the invalid-token branch at a column that the row reports.
\<close>

theorem parseLine_token_bounds:
  assumes "parseLine p line off = Inr row" and "HasColumn row col"
  shows "\<exists>t. Row_Token row col = Inr t
           \<and> off \<le> Start t \<and> Start t < End t \<and> End t \<le> off + int (length line)
           \<and> ValueSize t = Inr (End t - Start t) \<and> 0 < End t - Start t
           \<and> (\<forall>c n. Raw c (Some row) col \<noteq> Inl (ErrEmptySize n)
                    \<and> Raw c (Some row) col \<noteq> Inl ErrInvalidToken)
           \<and> (\<forall>c v n. SetRaw c (Some row) col v \<noteq> Inl (ErrEmptySize n)
                      \<and> SetRaw c (Some row) col v \<noteq> Inl ErrInvalidToken)"
proof -
  let ?t = "tokens row ! nat col"
  have tok: "Row_Token row col = Inr ?t"
    using assms(2) by (simp add: Row_Token_def)
  have b: "-1 < Start ?t" "off \<le> Start ?t" "Start ?t < End ?t"
    "End ?t \<le> off + int (length line)"
    using parseLine_tokens[OF assms(1) HasColumn_token[OF assms(2)]] by simp_all
  have vs: "ValueSize ?t = Inr (End ?t - Start ?t)"
    using b by (simp add: ValueSize_def)
  have raw: "Raw c (Some row) col \<noteq> Inl (ErrEmptySize n)
             \<and> Raw c (Some row) col \<noteq> Inl ErrInvalidToken" for c n
    using b tok vs by (simp add: Raw_def slice_def Let_def)
  have setraw: "SetRaw c (Some row) col v \<noteq> Inl (ErrEmptySize n)
                \<and> SetRaw c (Some row) col v \<noteq> Inl ErrInvalidToken" for c v n
    using b tok vs by (simp add: SetRaw_def slice_def Let_def split: sum.splits)
  have pos: "0 < End ?t - Start ?t"
    using b by simp
  show ?thesis
    by (rule exI[of _ ?t]) (use tok b vs pos raw setraw in simp)
qed

text \<open>The bounds at the line \<open>port = 5432\<close> placed at offset 7, for its value column.\<close>

theorem parseLine_token_bounds_witness:
  "parseLine conf_NewParams ''port = 5432'' 7
     = Inr \<lparr> tokens = [\<lparr> Start = 7, End = 11 \<rparr>, \<lparr> Start = 14, End = 18 \<rparr>] \<rparr>
   \<and> HasColumn \<lparr> tokens = [\<lparr> Start = 7, End = 11 \<rparr>, \<lparr> Start = 14, End = 18 \<rparr>] \<rparr> 1
   \<and> (\<exists>t. Row_Token \<lparr> tokens = [\<lparr> Start = 7, End = 11 \<rparr>, \<lparr> Start = 14, End = 18 \<rparr>] \<rparr> 1 = Inr t
          \<and> 7 \<le> Start t \<and> Start t < End t \<and> End t \<le> 7 + int (length ''port = 5432'')
          \<and> ValueSize t = Inr (End t - Start t) \<and> 0 < End t - Start t)"
proof -
  let ?row = "\<lparr> tokens = [\<lparr> Start = 7, End = 11 \<rparr>, \<lparr> Start = 14, End = 18 \<rparr>] \<rparr>"
  have h1: "parseLine conf_NewParams ''port = 5432'' 7 = Inr ?row"
    by code_simp
  have h2: "HasColumn ?row 1"
    by (simp add: HasColumn_def)
  from parseLine_token_bounds[OF h1 h2] h1 h2 show ?thesis
    by blast
qed

section \<open>Reading a column back\<close>

lemma take_drop_mid:
  assumes "length pre \<le> k" and "k - length pre + n \<le> length line"
  shows "take n (drop k (pre @ line @ post)) = take n (drop (k - length pre) line)"
proof -
  have "drop k (pre @ line @ post) = drop (k - length pre) line @ post"
    using assms by simp
  moreover have "n \<le> length (drop (k - length pre) line)"
    using assms by simp
  ultimately show ?thesis by simp
qed

text \<open>
  For a line anywhere in the buffer (the buffer is \<open>pre @ line @ post\<close>) and a column that the
  row returned by \<open>parseLine\<close> reports, \<open>Raw\<close> succeeds and returns the bytes of the buffer in
  the range \<open>[Start, End)\<close> that \<open>parseLine\<close> recorded, which are bytes of that line.
\<close>

lemma Raw_reads_recorded_range:
  assumes "conf c = pre @ line @ post"
    and "parseLine (params c) line (int (length pre)) = Inr row"
    and "HasColumn row col"
  shows "\<exists>t. Row_Token row col = Inr t
           \<and> Raw c (Some row) col
               = Inr (take (nat (End t - Start t)) (drop (nat (Start t)) (conf c)))
           \<and> Raw c (Some row) col
               = Inr (take (nat (End t - Start t)) (drop (nat (Start t) - length pre) line))
           \<and> length pre \<le> nat (Start t)
           \<and> nat (Start t) - length pre + nat (End t - Start t) \<le> length line"
proof -
  let ?t = "tokens row ! nat col"
  have tok: "Row_Token row col = Inr ?t"
    using assms(3) by (simp add: Row_Token_def)
  have b: "-1 < Start ?t" "int (length pre) \<le> Start ?t" "Start ?t < End ?t"
    "End ?t \<le> int (length pre) + int (length line)"
    using parseLine_tokens[OF assms(2) HasColumn_token[OF assms(3)]] by simp_all
  have raw: "Raw c (Some row) col
               = Inr (take (nat (End ?t - Start ?t)) (drop (nat (Start ?t)) (conf c)))"
    using b assms(1) by (intro Raw_in_bounds[OF assms(3)]) simp_all
  have le: "length pre \<le> nat (Start ?t)"
    "nat (Start ?t) - length pre + nat (End ?t - Start ?t) \<le> length line"
    using b by linarith+
  have sub: "take (nat (End ?t - Start ?t)) (drop (nat (Start ?t)) (pre @ line @ post))
               = take (nat (End ?t - Start ?t)) (drop (nat (Start ?t) - length pre) line)"
    using le by (rule take_drop_mid)
  show ?thesis
    by (rule exI[of _ ?t]) (use tok raw sub le assms(1) in simp)
qed

text \<open>
  Claim C1. Round trip: parsing a line and calling \<open>Raw\<close> on a column the row reports returns
  exactly the original text of that column, byte for byte, quotes included. The code breaks
  this for a column that ends the line with a multi-byte character. \<open>parseLine\<close> closes the last
  column at \<open>pos + 1\<close>, where \<open>pos\<close> is the offset of the first byte of the last rune seen. In
  the line \<open>k = caf\<close> followed by the two bytes of U+00E9 and a newline, the value column is
  the five bytes at offsets 4 to 8; the recorded token is \<open>[4, 8)\<close> and \<open>Raw\<close> returns \<open>caf\<close>
  and the first byte of the character only. When a blank follows the same column, the token
  is closed at the blank's offset, and the whole column is read back.
\<close>

theorem Raw_roundtrip_multibyte_end:
  "parseLine conf_NewParams (''k = caf'' @ [CHR 0xC3, CHR 0xA9, CHR 0x0A]) 0
     = Inr \<lparr> tokens = [\<lparr> Start = 0, End = 1 \<rparr>, \<lparr> Start = 4, End = 8 \<rparr>] \<rparr>
   \<and> Raw (New (''k = caf'' @ [CHR 0xC3, CHR 0xA9, CHR 0x0A]) conf_NewParams)
         (Some \<lparr> tokens = [\<lparr> Start = 0, End = 1 \<rparr>, \<lparr> Start = 4, End = 8 \<rparr>] \<rparr>) 1
       = Inr (''caf'' @ [CHR 0xC3])
   \<and> Raw (New (''k = caf'' @ [CHR 0xC3, CHR 0xA9, CHR 0x0A]) conf_NewParams)
         (Some \<lparr> tokens = [\<lparr> Start = 0, End = 1 \<rparr>, \<lparr> Start = 4, End = 8 \<rparr>] \<rparr>) 1
       \<noteq> Inr (''caf'' @ [CHR 0xC3, CHR 0xA9])
   \<and> parseLine conf_NewParams (''k = caf'' @ [CHR 0xC3, CHR 0xA9, CHR '' '', CHR 0x0A]) 0
     = Inr \<lparr> tokens = [\<lparr> Start = 0, End = 1 \<rparr>, \<lparr> Start = 4, End = 9 \<rparr>] \<rparr>
   \<and> Raw (New (''k = caf'' @ [CHR 0xC3, CHR 0xA9, CHR '' '', CHR 0x0A]) conf_NewParams)
         (Some \<lparr> tokens = [\<lparr> Start = 0, End = 1 \<rparr>, \<lparr> Start = 4, End = 9 \<rparr>] \<rparr>) 1
       = Inr (''caf'' @ [CHR 0xC3, CHR 0xA9])"
proof -
  have a: "parseLine conf_NewParams (''k = caf'' @ [CHR 0xC3, CHR 0xA9, CHR 0x0A]) 0
     = Inr \<lparr> tokens = [\<lparr> Start = 0, End = 1 \<rparr>, \<lparr> Start = 4, End = 8 \<rparr>] \<rparr>"
    by code_simp
  have b: "Raw (New (''k = caf'' @ [CHR 0xC3, CHR 0xA9, CHR 0x0A]) conf_NewParams)
         (Some \<lparr> tokens = [\<lparr> Start = 0, End = 1 \<rparr>, \<lparr> Start = 4, End = 8 \<rparr>] \<rparr>) 1
       = Inr (''caf'' @ [CHR 0xC3])"
    by code_simp
  have c: "Raw (New (''k = caf'' @ [CHR 0xC3, CHR 0xA9, CHR 0x0A]) conf_NewParams)
         (Some \<lparr> tokens = [\<lparr> Start = 0, End = 1 \<rparr>, \<lparr> Start = 4, End = 8 \<rparr>] \<rparr>) 1
       \<noteq> Inr (''caf'' @ [CHR 0xC3, CHR 0xA9])"
    unfolding b by simp
  have d: "parseLine conf_NewParams (''k = caf'' @ [CHR 0xC3, CHR 0xA9, CHR '' '', CHR 0x0A]) 0
     = Inr \<lparr> tokens = [\<lparr> Start = 0, End = 1 \<rparr>, \<lparr> Start = 4, End = 9 \<rparr>] \<rparr>"
    by code_simp
  have e: "Raw (New (''k = caf'' @ [CHR 0xC3, CHR 0xA9, CHR '' '', CHR 0x0A]) conf_NewParams)
         (Some \<lparr> tokens = [\<lparr> Start = 0, End = 1 \<rparr>, \<lparr> Start = 4, End = 9 \<rparr>] \<rparr>) 1
       = Inr (''caf'' @ [CHR 0xC3, CHR 0xA9])"
    by code_simp
  show ?thesis
    using a b c d e by (intro conjI) assumption+
qed

text \<open>
  Claim C8. \<open>Raw\<close> fails with the invalid-column error when the row has no token at the index,
  fails with the size error when the token's computed size is at most 0, and returns the exact
  bytes of the token's range, quotes included, when the range is non-empty and lies in the
  buffer; a token whose size cannot be computed (an unset end, or a start after the end) is
  rejected as invalid. The line \<open>nosuchkey  # comment\<close> tokenizes to exactly one column, and column 1 of it
  is an invalid column.
\<close>

theorem Raw_outcomes:
  "(\<not> HasColumn r col \<longrightarrow> Raw c (Some r) col = Inl (ErrInvalidColumn col))
   \<and> (HasColumn r col \<and> ValueSize (tokens r ! nat col) = Inr n \<and> n \<le> 0
        \<longrightarrow> Raw c (Some r) col = Inl (ErrEmptySize n))
   \<and> (HasColumn r col \<and> 0 \<le> Start (tokens r ! nat col)
        \<and> Start (tokens r ! nat col) < End (tokens r ! nat col)
        \<and> End (tokens r ! nat col) \<le> int (length (conf c))
        \<longrightarrow> Raw c (Some r) col
              = Inr (take (nat (End (tokens r ! nat col) - Start (tokens r ! nat col)))
                       (drop (nat (Start (tokens r ! nat col))) (conf c))))
   \<and> (HasColumn r col
        \<and> (Start (tokens r ! nat col) = -1 \<or> End (tokens r ! nat col) = -1
             \<or> End (tokens r ! nat col) < Start (tokens r ! nat col))
        \<longrightarrow> Raw c (Some r) col = Inl ErrInvalidToken)
   \<and> parseLine conf_NewParams (''nosuchkey  # comment'' @ [CHR 0x0A]) 0
        = Inr \<lparr> tokens = [\<lparr> Start = 0, End = 9 \<rparr>] \<rparr>
   \<and> ColCount \<lparr> tokens = [\<lparr> Start = 0, End = 9 \<rparr>] \<rparr> = 1
   \<and> Raw (New (''nosuchkey  # comment'' @ [CHR 0x0A]) conf_NewParams)
          (Some \<lparr> tokens = [\<lparr> Start = 0, End = 9 \<rparr>] \<rparr>) 1 = Inl (ErrInvalidColumn 1)"
proof -
  have a: "\<not> HasColumn r col \<longrightarrow> Raw c (Some r) col = Inl (ErrInvalidColumn col)"
    by (simp add: Raw_def Row_Token_def)
  have b: "HasColumn r col \<and> ValueSize (tokens r ! nat col) = Inr n \<and> n \<le> 0
        \<longrightarrow> Raw c (Some r) col = Inl (ErrEmptySize n)"
    by (simp add: Raw_def Row_Token_def Let_def)
  have d: "HasColumn r col \<and> 0 \<le> Start (tokens r ! nat col)
        \<and> Start (tokens r ! nat col) < End (tokens r ! nat col)
        \<and> End (tokens r ! nat col) \<le> int (length (conf c))
        \<longrightarrow> Raw c (Some r) col
              = Inr (take (nat (End (tokens r ! nat col) - Start (tokens r ! nat col)))
                       (drop (nat (Start (tokens r ! nat col))) (conf c)))"
    using Raw_in_bounds[of r col "tokens r ! nat col" c] by blast
  have i: "HasColumn r col
        \<and> (Start (tokens r ! nat col) = -1 \<or> End (tokens r ! nat col) = -1
             \<or> End (tokens r ! nat col) < Start (tokens r ! nat col))
        \<longrightarrow> Raw c (Some r) col = Inl ErrInvalidToken"
    by (auto simp: Raw_def Row_Token_def ValueSize_def Let_def)
  have e: "parseLine conf_NewParams (''nosuchkey  # comment'' @ [CHR 0x0A]) 0
        = Inr \<lparr> tokens = [\<lparr> Start = 0, End = 9 \<rparr>] \<rparr>"
    by code_simp
  have f: "ColCount \<lparr> tokens = [\<lparr> Start = 0, End = 9 \<rparr>] \<rparr> = 1"
    by (simp add: ColCount_def)
  have g: "Raw (New (''nosuchkey  # comment'' @ [CHR 0x0A]) conf_NewParams)
          (Some \<lparr> tokens = [\<lparr> Start = 0, End = 9 \<rparr>] \<rparr>) 1 = Inl (ErrInvalidColumn 1)"
    by (simp add: Raw_def Row_Token_def HasColumn_def)
  show ?thesis
    using a b d i e f g by (intro conjI) assumption+
qed

text \<open>One row for each of the four outcomes, on the buffer \<open>nosuchkey\<close>.\<close>

theorem Raw_outcomes_witness:
  "\<not> HasColumn \<lparr> tokens = [\<lparr> Start = 0, End = 9 \<rparr>] \<rparr> 1
   \<and> Raw (New ''nosuchkey'' NewParams) (Some \<lparr> tokens = [\<lparr> Start = 0, End = 9 \<rparr>] \<rparr>) 1
       = Inl (ErrInvalidColumn 1)
   \<and> HasColumn \<lparr> tokens = [\<lparr> Start = 3, End = 3 \<rparr>] \<rparr> 0
   \<and> ValueSize \<lparr> Start = 3, End = 3 \<rparr> = Inr 0
   \<and> Raw (New ''nosuchkey'' NewParams) (Some \<lparr> tokens = [\<lparr> Start = 3, End = 3 \<rparr>] \<rparr>) 0
       = Inl (ErrEmptySize 0)
   \<and> HasColumn \<lparr> tokens = [\<lparr> Start = 0, End = 9 \<rparr>] \<rparr> 0
   \<and> Raw (New ''nosuchkey'' NewParams) (Some \<lparr> tokens = [\<lparr> Start = 0, End = 9 \<rparr>] \<rparr>) 0
       = Inr ''nosuchkey''
   \<and> HasColumn \<lparr> tokens = [\<lparr> Start = 5, End = 2 \<rparr>] \<rparr> 0
   \<and> Raw (New ''nosuchkey'' NewParams) (Some \<lparr> tokens = [\<lparr> Start = 5, End = 2 \<rparr>] \<rparr>) 0
       = Inl ErrInvalidToken"
proof -
  let ?c = "New ''nosuchkey'' NewParams"
  let ?r = "\<lparr> tokens = [\<lparr> Start = 0, End = 9 \<rparr>] \<rparr>"
  let ?z = "\<lparr> tokens = [\<lparr> Start = 3, End = 3 \<rparr>] \<rparr>"
  let ?g = "\<lparr> tokens = [\<lparr> Start = 5, End = 2 \<rparr>] \<rparr>"
  have h1: "\<not> HasColumn ?r 1" by (simp add: HasColumn_def)
  have h2: "HasColumn ?z 0" by (simp add: HasColumn_def)
  have h3: "ValueSize \<lparr> Start = 3, End = 3 \<rparr> = Inr 0" by (simp add: ValueSize_def)
  have h4: "HasColumn ?r 0" by (simp add: HasColumn_def)
  have h5: "HasColumn ?g 0" by (simp add: HasColumn_def)
  have w1: "Raw ?c (Some ?r) 1 = Inl (ErrInvalidColumn 1)"
    using Raw_outcomes[of ?r 1 ?c 0] h1 by blast
  have w2: "Raw ?c (Some ?z) 0 = Inl (ErrEmptySize 0)"
    using Raw_outcomes[of ?z 0 ?c 0] h2 h3 by simp
  have w3: "Raw ?c (Some ?r) 0 = Inr ''nosuchkey''"
    using Raw_outcomes[of ?r 0 ?c 0] h4 by (simp add: New_def)
  have w4: "Raw ?c (Some ?g) 0 = Inl ErrInvalidToken"
    using Raw_outcomes[of ?g 0 ?c 0] h5 by simp
  show ?thesis
    using h1 w1 h2 h3 w2 h4 w3 h5 w4 by (intro conjI) assumption+
qed

section \<open>Quoting and dequoting\<close>

lemma Replace_from_doubled: "Replace_from s [q, q] [q] = collapse_doubled q s"
  by (induction q s rule: collapse_doubled.induct) (auto simp: HasPrefix_def)

lemma Replace_from_escaped: "Replace_from s [CHR 0x5C, q] [q] = collapse_escaped q s"
  by (induction q s rule: collapse_escaped.induct) (auto simp: HasPrefix_def)

lemma string_of_rune_ascii: "0 \<le> r \<Longrightarrow> r < 128 \<Longrightarrow> string_of_rune r = [char_of r]"
  by (simp add: string_of_rune_def)

lemma Index_quotes:
  "(Index [CHR 0x22, CHR 0x27] [c] = -1) = (c \<noteq> CHR 0x22 \<and> c \<noteq> CHR 0x27)"
  by (auto simp: Index_def HasPrefix_def)

lemma UnescapeQuotes_builtin:
  assumes "BackslashEscapedQuotes p" and "q = CHR 0x22 \<or> q = CHR 0x27"
  shows "UnescapeQuotes p s (byte q) = collapse_escaped q (collapse_doubled q s)"
proof -
  have "string_of_rune (byte q) = [q]"
    using assms(2) by (auto simp: string_of_rune_def byte_def)
  then show ?thesis
    using assms(1)
    by (simp add: UnescapeQuotes_def Replace_def Replace_from_doubled Replace_from_escaped)
qed

lemma drop_last: "xs \<noteq> [] \<Longrightarrow> drop (length xs - 1) xs = [last xs]"
  by (induction xs rule: rev_induct) simp_all

lemma Dequote_spec:
  assumes "Quotes p = [CHR 0x22, CHR 0x27]" and "BackslashEscapedQuotes p"
  shows "Dequote p v = spec_Dequote v"
proof (cases "length v < 2")
  case True
  then show ?thesis by (simp add: Dequote_def spec_Dequote_def)
next
  case False
  then have ne: "v \<noteq> []" by auto
  have first: "take 1 v = [hd v]"
    using ne by (cases v) simp_all
  have inner: "take (length v - 2) (drop 1 v) = butlast (tl v)"
    by (simp add: butlast_conv_take drop_Suc numeral_2_eq_2)
  have lst: "drop (length v - 1) v = [last v]"
    using ne by (rule drop_last)
  have deq: "Dequote p v =
     (if hd v \<noteq> CHR 0x22 \<and> hd v \<noteq> CHR 0x27 then v
      else if last v \<noteq> hd v then v
      else UnescapeQuotes p (butlast (tl v)) (byte (hd v)))"
    unfolding Dequote_def Let_def first lst inner assms(1) Index_quotes
    using False by simp
  show ?thesis
  proof (cases "(hd v = CHR 0x22 \<or> hd v = CHR 0x27) \<and> last v = hd v")
    case True
    then have "UnescapeQuotes p (butlast (tl v)) (byte (hd v))
                 = collapse_escaped (hd v) (collapse_doubled (hd v) (butlast (tl v)))"
      by (intro UnescapeQuotes_builtin[OF assms(2)]) simp
    with True False show ?thesis
      unfolding deq spec_Dequote_def by auto
  next
    case False
    then show ?thesis
      unfolding deq spec_Dequote_def by auto
  qed
qed

text \<open>
  Claim C5. In both built-in dialects \<open>Dequote\<close> strips exactly one layer of enclosing quotes,
  and only when the value has at least two characters and its first and last characters are
  the same recognized quote character; it then collapses doubled quote characters to one and
  backslash-quote to the bare quote. The raw value
  \<open>'"$user", ''public'', \'other\''\<close> dequotes to \<open>"$user", 'public', 'other'\<close>.
\<close>

theorem Dequote_builtin_dialects:
  "Dequote NewParams v = spec_Dequote v
   \<and> Dequote conf_NewParams v = spec_Dequote v
   \<and> Dequote conf_NewParams
        ([CHR 0x27, CHR 0x22] @ ''$user'' @ [CHR 0x22] @ '', '' @ [CHR 0x27, CHR 0x27]
          @ ''public'' @ [CHR 0x27, CHR 0x27] @ '', '' @ [CHR 0x5C, CHR 0x27] @ ''other''
          @ [CHR 0x5C, CHR 0x27, CHR 0x27])
       = [CHR 0x22] @ ''$user'' @ [CHR 0x22] @ '', '' @ [CHR 0x27] @ ''public'' @ [CHR 0x27]
          @ '', '' @ [CHR 0x27] @ ''other'' @ [CHR 0x27]
   \<and> Dequote NewParams
        ([CHR 0x27, CHR 0x22] @ ''$user'' @ [CHR 0x22] @ '', '' @ [CHR 0x27, CHR 0x27]
          @ ''public'' @ [CHR 0x27, CHR 0x27] @ '', '' @ [CHR 0x5C, CHR 0x27] @ ''other''
          @ [CHR 0x5C, CHR 0x27, CHR 0x27])
       = [CHR 0x22] @ ''$user'' @ [CHR 0x22] @ '', '' @ [CHR 0x27] @ ''public'' @ [CHR 0x27]
          @ '', '' @ [CHR 0x27] @ ''other'' @ [CHR 0x27]"
proof -
  have a: "Dequote NewParams v = spec_Dequote v"
    by (rule Dequote_spec) (simp_all add: NewParams_def)
  have b: "Dequote conf_NewParams v = spec_Dequote v"
    by (rule Dequote_spec) (simp_all add: conf_NewParams_def)
  have c: "Dequote conf_NewParams
        ([CHR 0x27, CHR 0x22] @ ''$user'' @ [CHR 0x22] @ '', '' @ [CHR 0x27, CHR 0x27]
          @ ''public'' @ [CHR 0x27, CHR 0x27] @ '', '' @ [CHR 0x5C, CHR 0x27] @ ''other''
          @ [CHR 0x5C, CHR 0x27, CHR 0x27])
       = [CHR 0x22] @ ''$user'' @ [CHR 0x22] @ '', '' @ [CHR 0x27] @ ''public'' @ [CHR 0x27]
          @ '', '' @ [CHR 0x27] @ ''other'' @ [CHR 0x27]"
    by code_simp
  have d: "Dequote NewParams
        ([CHR 0x27, CHR 0x22] @ ''$user'' @ [CHR 0x22] @ '', '' @ [CHR 0x27, CHR 0x27]
          @ ''public'' @ [CHR 0x27, CHR 0x27] @ '', '' @ [CHR 0x5C, CHR 0x27] @ ''other''
          @ [CHR 0x5C, CHR 0x27, CHR 0x27])
       = [CHR 0x22] @ ''$user'' @ [CHR 0x22] @ '', '' @ [CHR 0x27] @ ''public'' @ [CHR 0x27]
          @ '', '' @ [CHR 0x27] @ ''other'' @ [CHR 0x27]"
    by code_simp
  from a b c d show ?thesis by blast
qed

lemma decode_ascii: "byte c < 128 \<Longrightarrow> DecodeRune (c # cs) = (byte c, 1)"
  by simp

lemma ascii_byte_is_rune:
  "x \<in> set s \<Longrightarrow> byte x < 128 \<Longrightarrow> \<exists>i. (i, byte x) \<in> set (range_from k s)"
proof (induction k s rule: range_from.induct)
  case (1 i)
  then show ?case by simp
next
  case (2 i c cs)
  let ?w = "snd (DecodeRune (c # cs))"
  show ?case
  proof (cases "x = c")
    case True
    with 2(3) show ?thesis by (auto simp: decode_ascii)
  next
    case False
    with 2(2) have "x \<in> set cs" by simp
    then have "x \<in> set (take (?w - 1) cs) \<or> x \<in> set (drop (?w - 1) cs)"
      by (metis Un_iff append_take_drop_id set_append)
    with decode_consumed[of x c cs] 2(3) have "x \<in> set (drop (?w - 1) cs)"
      by auto
    from 2(1)[OF this 2(3)] show ?thesis by auto
  qed
qed

lemma Replace_from_absent:
  "x \<in> set old \<Longrightarrow> x \<notin> set s \<Longrightarrow> Replace_from s old new = s"
proof (induction s)
  case Nil
  then show ?case by simp
next
  case (Cons c cs)
  have "\<not> HasPrefix (c # cs) old"
  proof
    assume "HasPrefix (c # cs) old"
    then have "set old \<subseteq> set (c # cs)"
      unfolding HasPrefix_def by (metis set_take_subset)
    with Cons.prems show False by auto
  qed
  with Cons show ?case by simp
qed

text \<open>
  Claim C6, as stated, fails on the code: it holds for no dialect whose default quote
  character \<open>Dequote\<close> does not recognise. With the backtick as default quote and the
  built-in quote characters, \<open>Quote\<close> wraps \<open>abc\<close> in backticks and \<open>Dequote\<close> returns it still
  wrapped. With the two-byte character U+00AB as default quote, listed among the quote
  characters, \<open>Dequote\<close> compares the first and the last byte of the value, which differ, and
  again returns the value as it is. In both dialects \<open>abc\<close> contains no quote and no
  whitespace character.
\<close>

theorem Dequote_Quote_counterexample:
  "\<not> HasQuotesOrWhitespace (NewParams\<lparr> DefaultQuote := 96 \<rparr>) ''abc''
   \<and> Dequote (NewParams\<lparr> DefaultQuote := 96 \<rparr>) (Quote (NewParams\<lparr> DefaultQuote := 96 \<rparr>) ''abc'')
       = [CHR 0x60] @ ''abc'' @ [CHR 0x60]
   \<and> Dequote (NewParams\<lparr> DefaultQuote := 96 \<rparr>) (Quote (NewParams\<lparr> DefaultQuote := 96 \<rparr>) ''abc'')
       \<noteq> ''abc''
   \<and> \<not> HasQuotesOrWhitespace
         (NewParams\<lparr> Quotes := [CHR 0x22, CHR 0x27, CHR 0xC2, CHR 0xAB], DefaultQuote := 171 \<rparr>)
         ''abc''
   \<and> Dequote (NewParams\<lparr> Quotes := [CHR 0x22, CHR 0x27, CHR 0xC2, CHR 0xAB], DefaultQuote := 171 \<rparr>)
         (Quote (NewParams\<lparr> Quotes := [CHR 0x22, CHR 0x27, CHR 0xC2, CHR 0xAB],
                           DefaultQuote := 171 \<rparr>) ''abc'')
       = [CHR 0xC2, CHR 0xAB] @ ''abc'' @ [CHR 0xC2, CHR 0xAB]
   \<and> Dequote (NewParams\<lparr> Quotes := [CHR 0x22, CHR 0x27, CHR 0xC2, CHR 0xAB], DefaultQuote := 171 \<rparr>)
         (Quote (NewParams\<lparr> Quotes := [CHR 0x22, CHR 0x27, CHR 0xC2, CHR 0xAB],
                           DefaultQuote := 171 \<rparr>) ''abc'')
       \<noteq> ''abc''"
proof -
  let ?p = "NewParams\<lparr> DefaultQuote := 96 \<rparr>"
  let ?g = "NewParams\<lparr> Quotes := [CHR 0x22, CHR 0x27, CHR 0xC2, CHR 0xAB], DefaultQuote := 171 \<rparr>"
  have a: "\<not> HasQuotesOrWhitespace ?p ''abc''"
    by code_simp
  have b: "Dequote ?p (Quote ?p ''abc'') = [CHR 0x60] @ ''abc'' @ [CHR 0x60]"
    by code_simp
  have c: "Dequote ?p (Quote ?p ''abc'') \<noteq> ''abc''"
    unfolding b by simp
  have d: "\<not> HasQuotesOrWhitespace ?g ''abc''"
    by code_simp
  have e: "Dequote ?g (Quote ?g ''abc'') = [CHR 0xC2, CHR 0xAB] @ ''abc'' @ [CHR 0xC2, CHR 0xAB]"
    by code_simp
  have f: "Dequote ?g (Quote ?g ''abc'') \<noteq> ''abc''"
    unfolding e by simp
  show ?thesis
    using a b c d e f by (intro conjI) assumption+
qed

text \<open>
  Claim C6, amended. In every dialect whose default quote character is a one-byte character
  listed among its quote characters, as it is in the built-in dialects, and for every value
  that contains none of the dialect's quote characters and none of its whitespace characters,
  \<open>Dequote (Quote value) = value\<close>.
\<close>

theorem Dequote_Quote:
  assumes "\<not> HasQuotesOrWhitespace p v"
    and "p = NewParams \<or> p = conf_NewParams
         \<or> (0 \<le> DefaultQuote p \<and> DefaultQuote p < 128
             \<and> Index (Quotes p) (string_of_rune (DefaultQuote p)) > -1)"
  shows "Dequote p (Quote p v) = v"
proof -
  have g: "Index (Quotes NewParams) (string_of_rune (DefaultQuote NewParams)) > -1"
    "Index (Quotes conf_NewParams) (string_of_rune (DefaultQuote conf_NewParams)) > -1"
    by code_simp+
  have wf: "0 \<le> DefaultQuote p" "DefaultQuote p < 128"
    "Index (Quotes p) (string_of_rune (DefaultQuote p)) > -1"
    using assms(2) g by (auto simp: NewParams_def conf_NewParams_def)
  let ?q = "DefaultQuote p"
  let ?c = "char_of ?q :: char"
  have single: "string_of_rune ?q = [?c]"
    using wf(1,2) by (rule string_of_rune_ascii)
  have bq: "byte ?c = ?q"
    using wf(1,2) by (simp add: byte_def)
  have absent: "?c \<notin> set v"
  proof
    assume "?c \<in> set v"
    then obtain i where "(i, ?q) \<in> set (range_string v)"
      using ascii_byte_is_rune[of ?c v 0] bq wf(2) by (auto simp: range_string_def)
    with wf(3) have "HasQuotesOrWhitespace p v"
      unfolding HasQuotesOrWhitespace_def list_ex_iff by fastforce
    with assms(1) show False by simp
  qed
  have r0: "Replace_from v [?c] [?c, ?c] = v"
    using absent by (simp add: Replace_from_absent[of ?c])
  have quoted: "Quote p v = ?c # v @ [?c]"
    by (simp add: Quote_def EscapeQuotes_def Let_def single Replace_def r0)
  have r1: "Replace_from v [?c, ?c] [?c] = v"
    and r2: "Replace_from v [CHR 0x5C, ?c] [?c] = v"
    using absent by (simp_all add: Replace_from_absent[of ?c])
  have unesc: "UnescapeQuotes p v ?q = v"
    by (simp add: UnescapeQuotes_def Let_def single Replace_def r1 r2)
  have first: "take 1 (Quote p v) = [?c]"
    and lst: "drop (length (Quote p v) - 1) (Quote p v) = [?c]"
    and inner: "take (length (Quote p v) - 2) (drop 1 (Quote p v)) = v"
    by (simp_all add: quoted)
  have idx: "Index (Quotes p) [?c] \<noteq> -1"
    using wf(3) single by simp
  have len: "\<not> length (Quote p v) < 2"
    by (simp add: quoted)
  show ?thesis
    unfolding Dequote_def Let_def first lst inner
    using idx len unesc bq by simp
qed

text \<open>The law at \<open>syslog\<close> in the postgresql.conf dialect and at an address in the generic one.\<close>

theorem Dequote_Quote_witness:
  "\<not> HasQuotesOrWhitespace conf_NewParams ''syslog''
   \<and> Quote conf_NewParams ''syslog'' = [CHR 0x27] @ ''syslog'' @ [CHR 0x27]
   \<and> Dequote conf_NewParams (Quote conf_NewParams ''syslog'') = ''syslog''
   \<and> \<not> HasQuotesOrWhitespace NewParams ''10.0.0.3/32''
   \<and> Dequote NewParams (Quote NewParams ''10.0.0.3/32'') = ''10.0.0.3/32''"
proof -
  have h1: "\<not> HasQuotesOrWhitespace conf_NewParams ''syslog''"
    and h2: "\<not> HasQuotesOrWhitespace NewParams ''10.0.0.3/32''"
    by code_simp+
  have q: "Quote conf_NewParams ''syslog'' = [CHR 0x27] @ ''syslog'' @ [CHR 0x27]"
    by code_simp
  from Dequote_Quote[OF h1] Dequote_Quote[OF h2] h1 h2 q show ?thesis by simp
qed

section \<open>Boolean parsing\<close>

lemma HasPrefix_prefix: "HasPrefix w v = prefix v w"
  unfolding HasPrefix_def by (metis append_eq_conv_conj prefix_def take_is_prefix)

lemma nonempty_prefix_of_set: "nonempty_prefix_of v w = (v \<in> set (prefixes w) \<and> v \<noteq> [])"
  by (auto simp: nonempty_prefix_of_def HasPrefix_prefix in_set_prefixes)

lemma HasPrefix_one: "HasPrefix v [c] = (v \<noteq> [] \<and> hd v = c)"
  by (cases v) (auto simp: HasPrefix_def)

lemma prefixes_true:
  "nonempty_prefix_of v ''true'' = (v = ''t'' \<or> v = ''tr'' \<or> v = ''tru'' \<or> v = ''true'')"
  by (auto simp: nonempty_prefix_of_set)

lemma prefixes_false:
  "nonempty_prefix_of v ''false''
     = (v = ''f'' \<or> v = ''fa'' \<or> v = ''fal'' \<or> v = ''fals'' \<or> v = ''false'')"
  by (auto simp: nonempty_prefix_of_set)

lemma prefixes_yes:
  "nonempty_prefix_of v ''yes'' = (v = ''y'' \<or> v = ''ye'' \<or> v = ''yes'')"
  by (auto simp: nonempty_prefix_of_set)

lemma prefixes_no: "nonempty_prefix_of v ''no'' = (v = ''n'' \<or> v = ''no'')"
  by (auto simp: nonempty_prefix_of_set)

text \<open>
  Claim C3, as stated, fails on the code: \<open>o\<close> is a non-empty prefix of \<open>off\<close>, so the claim gives
  false for it, while the code, which asks for an unambiguous prefix, rejects it.
\<close>

theorem BoolK_value_counterexample:
  "BoolK_value ''o'' = Inl ErrUnknownBoolean \<and> spec_bool ''o'' = Inr False
   \<and> BoolK_value ''o'' \<noteq> spec_bool ''o''"
  by (simp add: BoolK_value_def spec_bool_def nonempty_prefix_of_def HasPrefix_def)

text \<open>
  Claim C3, amended. On the value after dequoting, trimming and lowercasing: exact \<open>on\<close> is
  true; \<open>of\<close> and \<open>off\<close> are false; every non-empty prefix of \<open>true\<close> is true, of \<open>false\<close> false,
  of \<open>yes\<close> true, of \<open>no\<close> false; exact \<open>1\<close> is true and exact \<open>0\<close> false; a string that is none
  of \<open>on\<close>, \<open>1\<close>, \<open>0\<close>, does not begin with \<open>of\<close> and does not begin with one of the letters
  t, f, y, n fails with a parse error. So \<open>tru\<close> is true, \<open>f\<close> is false and \<open>maybe\<close> fails.
\<close>

theorem BoolK_value_words:
  "BoolK_value ''on'' = Inr True
   \<and> (v = ''of'' \<or> v = ''off'' \<longrightarrow> BoolK_value v = Inr False)
   \<and> (nonempty_prefix_of v ''true'' \<longrightarrow> BoolK_value v = Inr True)
   \<and> (nonempty_prefix_of v ''false'' \<longrightarrow> BoolK_value v = Inr False)
   \<and> (nonempty_prefix_of v ''yes'' \<longrightarrow> BoolK_value v = Inr True)
   \<and> (nonempty_prefix_of v ''no'' \<longrightarrow> BoolK_value v = Inr False)
   \<and> BoolK_value ''1'' = Inr True
   \<and> BoolK_value ''0'' = Inr False
   \<and> (v \<noteq> ''on'' \<and> v \<noteq> ''1'' \<and> v \<noteq> ''0'' \<and> \<not> HasPrefix v ''of''
        \<and> (v = [] \<or> hd v \<notin> set ''tfyn'') \<longrightarrow> BoolK_value v = Inl ErrUnknownBoolean)
   \<and> BoolK_value ''tru'' = Inr True
   \<and> BoolK_value ''f'' = Inr False
   \<and> BoolK_value ''maybe'' = Inl ErrUnknownBoolean"
proof -
  have fixed: "BoolK_value ''on'' = Inr True" "BoolK_value ''1'' = Inr True"
    "BoolK_value ''0'' = Inr False" "BoolK_value ''tru'' = Inr True"
    "BoolK_value ''f'' = Inr False" "BoolK_value ''maybe'' = Inl ErrUnknownBoolean"
    by (simp_all add: BoolK_value_def HasPrefix_def)
  have off: "v = ''of'' \<or> v = ''off'' \<longrightarrow> BoolK_value v = Inr False"
    by (intro impI, elim disjE) (simp_all add: BoolK_value_def HasPrefix_def)
  have t: "nonempty_prefix_of v ''true'' \<longrightarrow> BoolK_value v = Inr True"
    unfolding prefixes_true
    by (intro impI, elim disjE) (simp_all add: BoolK_value_def HasPrefix_def)
  have f: "nonempty_prefix_of v ''false'' \<longrightarrow> BoolK_value v = Inr False"
    unfolding prefixes_false
    by (intro impI, elim disjE) (simp_all add: BoolK_value_def HasPrefix_def)
  have y: "nonempty_prefix_of v ''yes'' \<longrightarrow> BoolK_value v = Inr True"
    unfolding prefixes_yes
    by (intro impI, elim disjE) (simp_all add: BoolK_value_def HasPrefix_def)
  have n: "nonempty_prefix_of v ''no'' \<longrightarrow> BoolK_value v = Inr False"
    unfolding prefixes_no
    by (intro impI, elim disjE) (simp_all add: BoolK_value_def HasPrefix_def)
  have other: "v \<noteq> ''on'' \<and> v \<noteq> ''1'' \<and> v \<noteq> ''0'' \<and> \<not> HasPrefix v ''of''
        \<and> (v = [] \<or> hd v \<notin> set ''tfyn'') \<longrightarrow> BoolK_value v = Inl ErrUnknownBoolean"
    by (auto simp: BoolK_value_def HasPrefix_one)
  show ?thesis
    using fixed off t f y n other by (intro conjI) assumption+
qed

text \<open>One value for each word form, and two values that fail.\<close>

theorem BoolK_value_words_witness:
  "BoolK_value ''of'' = Inr False
   \<and> nonempty_prefix_of ''tr'' ''true'' \<and> BoolK_value ''tr'' = Inr True
   \<and> nonempty_prefix_of ''fals'' ''false'' \<and> BoolK_value ''fals'' = Inr False
   \<and> nonempty_prefix_of ''y'' ''yes'' \<and> BoolK_value ''y'' = Inr True
   \<and> nonempty_prefix_of ''no'' ''no'' \<and> BoolK_value ''no'' = Inr False
   \<and> \<not> HasPrefix ''o'' ''of'' \<and> BoolK_value ''o'' = Inl ErrUnknownBoolean
   \<and> BoolK_value ''10'' = Inl ErrUnknownBoolean"
proof -
  have p: "nonempty_prefix_of ''tr'' ''true''" "nonempty_prefix_of ''fals'' ''false''"
    "nonempty_prefix_of ''y'' ''yes''" "nonempty_prefix_of ''no'' ''no''"
    "\<not> HasPrefix ''o'' ''of''" "\<not> HasPrefix ''10'' ''of''"
    by (simp_all add: nonempty_prefix_of_def HasPrefix_def)
  from BoolK_value_words[of "''of''"] have a: "BoolK_value ''of'' = Inr False" by simp
  from BoolK_value_words[of "''tr''"] p have b: "BoolK_value ''tr'' = Inr True"
    by simp
  from BoolK_value_words[of "''fals''"] p have c: "BoolK_value ''fals'' = Inr False"
    by simp
  from BoolK_value_words[of "''y''"] p have d: "BoolK_value ''y'' = Inr True"
    by simp
  from BoolK_value_words[of "''no''"] p have e: "BoolK_value ''no'' = Inr False"
    by simp
  from BoolK_value_words[of "''o''"] p have f: "BoolK_value ''o'' = Inl ErrUnknownBoolean"
    by simp
  from BoolK_value_words[of "''10''"] p have g: "BoolK_value ''10'' = Inl ErrUnknownBoolean"
    by simp
  show ?thesis
    using p a b c d e f g by (intro conjI) assumption+
qed

section \<open>Empty lines and comments\<close>

lemma started_step: "started st \<Longrightarrow> 0 \<le> off \<Longrightarrow> started (scan_step p off i r st)"
  unfolding started_def scan_step_def Let_def addToken_def by auto

lemma started_runes: "started st \<Longrightarrow> 0 \<le> off \<Longrightarrow> started (scan_runes p off rs st)"
  by (induction rs arbitrary: st) (auto simp: started_step)

lemma blank_step_ws:
  "blank st \<Longrightarrow> isWhitespace p r \<Longrightarrow> blank (scan_step p off i r st)"
  unfolding blank_def scan_step_def Let_def isWhitespace_def by simp

lemma blank_step_other:
  "blank st \<Longrightarrow> \<not> isWhitespace p r \<Longrightarrow> 0 \<le> off \<Longrightarrow> started (scan_step p off i r st)"
  unfolding blank_def started_def scan_step_def Let_def isWhitespace_def by simp

lemma blank_runes:
  assumes "blank st" and "0 \<le> off"
  shows "if list_all (isWhitespace p)
              (map snd (takeWhile (\<lambda>(i, r). r \<noteq> InlineComment p \<and> r \<noteq> 10) rs))
         then blank (scan_runes p off rs st) else started (scan_runes p off rs st)"
  using assms
proof (induction rs arbitrary: st)
  case Nil
  then show ?case by simp
next
  case (Cons x rs)
  obtain i r where x: "x = (i, r)" by (cases x)
  show ?case
  proof (cases "r = InlineComment p \<or> r = 10")
    case True
    with Cons.prems x show ?thesis by auto
  next
    case stop: False
    show ?thesis
    proof (cases "isWhitespace p r")
      case True
      from Cons.IH[OF blank_step_ws[OF Cons.prems(1) True] Cons.prems(2)] stop True x
      show ?thesis by simp
    next
      case False
      from started_runes[OF blank_step_other[OF Cons.prems(1) False Cons.prems(2)] Cons.prems(2)]
      have "started (scan_runes p off rs (scan_step p off i r st))" .
      with stop False x show ?thesis by simp
    qed
  qed
qed

lemma blank_init: "blank (scan_init p)"
  by (simp add: blank_def scan_init_def newRow_def)

lemma scan_finish_blank: "blank st \<Longrightarrow> scan_finish st = Inl ErrEmptyLine"
  by (simp add: blank_def scan_finish_def ColCount_def)

lemma scan_finish_started:
  "started st \<Longrightarrow> \<exists>row. scan_finish st = Inr row \<and> 1 \<le> ColCount row"
  by (auto simp: started_def scan_finish_def ColCount_def addToken_def Let_def Suc_le_eq)

text \<open>
  Claim C7. For every line and every offset into a buffer (so \<open>0 \<le> off\<close>), \<open>parseLine\<close> fails
  with \<open>ErrEmptyLine\<close> if and only if the line has no column content, that is, every rune
  before the first inline-comment character or newline is whitespace; otherwise it returns a
  row with at least one token.
\<close>

theorem parseLine_EmptyLine_iff:
  assumes "0 \<le> off"
  shows "(parseLine p line off = Inl ErrEmptyLine) = no_column_content p line
         \<and> (\<not> no_column_content p line
              \<longrightarrow> (\<exists>row. parseLine p line off = Inr row \<and> 1 \<le> ColCount row))"
proof -
  let ?st = "scan_runes p off (range_string line) (scan_init p)"
  have c: "if no_column_content p line then blank ?st else started ?st"
    using blank_runes[of "scan_init p" off p "range_string line"] blank_init[of p] assms
    by (simp add: no_column_content_def content_runes_def)
  show ?thesis
  proof (cases "no_column_content p line")
    case True
    with c have "blank ?st" by simp
    from scan_finish_blank[OF this] True show ?thesis by (simp add: parseLine_def)
  next
    case False
    with c have "started ?st" by simp
    from scan_finish_started[OF this] False show ?thesis by (auto simp: parseLine_def)
  qed
qed

text \<open>A comment-only line and a line with a key and a value, both at offset 40.\<close>

theorem parseLine_EmptyLine_iff_witness:
  "(0::int) \<le> 40
   \<and> no_column_content conf_NewParams (''   # only a comment'' @ [CHR 0x0A])
   \<and> parseLine conf_NewParams (''   # only a comment'' @ [CHR 0x0A]) 40 = Inl ErrEmptyLine
   \<and> \<not> no_column_content conf_NewParams (''  ssl = off # comment'' @ [CHR 0x0A])
   \<and> (\<exists>row. parseLine conf_NewParams (''  ssl = off # comment'' @ [CHR 0x0A]) 40 = Inr row
         \<and> 1 \<le> ColCount row)"
proof -
  have h: "(0::int) \<le> 40" by simp
  have n1: "no_column_content conf_NewParams (''   # only a comment'' @ [CHR 0x0A])"
    and n2: "\<not> no_column_content conf_NewParams (''  ssl = off # comment'' @ [CHR 0x0A])"
    by code_simp+
  from parseLine_EmptyLine_iff[OF h, of conf_NewParams "''   # only a comment'' @ [CHR 0x0A]"] n1
  have a: "parseLine conf_NewParams (''   # only a comment'' @ [CHR 0x0A]) 40 = Inl ErrEmptyLine"
    by blast
  from parseLine_EmptyLine_iff[OF h, of conf_NewParams "''  ssl = off # comment'' @ [CHR 0x0A]"] n2
  have b: "\<exists>row. parseLine conf_NewParams (''  ssl = off # comment'' @ [CHR 0x0A]) 40 = Inr row
         \<and> 1 \<le> ColCount row"
    by blast
  show ?thesis
    using h n1 n2 a b by (intro conjI) assumption+
qed

lemma scan_runes_stop:
  "r = InlineComment p \<or> r = 10 \<Longrightarrow>
   scan_runes p off (xs @ (i, r) # ys) st = scan_runes p off xs st"
  by (induction xs arbitrary: st) auto

text \<open>
  Claim C4. The scan of \<open>parseLine\<close> stops at the first inline-comment character or newline
  unconditionally. In every dialect, every token of the row ends at or before the byte index
  of that character, so the character is never part of a value, quoted or not. When the
  character is a newline or a one-byte comment character (as \<open>#\<close> is in every built-in dialect),
  the result for a line that has it after \<open>a\<close> is the result for \<open>a\<close> alone, whatever \<open>a\<close>
  is (an open quote included) and whatever follows.
\<close>

theorem parseLine_stops_at_comment:
  "(parseLine p line off = Inr row \<and> t \<in> set (tokens row)
      \<longrightarrow> End t \<le> off + int (first_stop p line))
   \<and> (byte c < 128 \<and> (byte c = InlineComment p \<or> byte c = 10)
      \<longrightarrow> parseLine p (a @ c # b) off = parseLine p a off)"
proof -
  have cut: "parseLine p (a @ c # b) off = parseLine p a off"
    if c: "byte c < 128" "byte c = InlineComment p \<or> byte c = 10"
  proof -
    have "range_string (a @ c # b)
            = range_string a @ (length a, byte c) # range_from (length a + 1) b"
      using range_from_append_ascii[OF c(1), of 0 a b] by (simp add: range_string_def)
    then show ?thesis
      using scan_runes_stop[OF c(2)] by (simp add: parseLine_def)
  qed
  show ?thesis
    using parseLine_tokens_stop[of p line off row t] cut by blast
qed

text \<open>
  A \<open>#\<close> inside a quoted value ends the scan: the value token is the two bytes \<open>'a\<close>, which
  end at byte 6, where the \<open>#\<close> stands.
\<close>

theorem parseLine_stops_at_comment_witness:
  "parseLine conf_NewParams (''k = '' @ [CHR 0x27] @ ''a#b'' @ [CHR 0x27] @ '' x'') 0
       = Inr \<lparr> tokens = [\<lparr> Start = 0, End = 1 \<rparr>, \<lparr> Start = 4, End = 6 \<rparr>] \<rparr>
   \<and> first_stop conf_NewParams (''k = '' @ [CHR 0x27] @ ''a#b'' @ [CHR 0x27] @ '' x'') = 6
   \<and> End \<lparr> Start = 4, End = 6 \<rparr>
       \<le> 0 + int (first_stop conf_NewParams (''k = '' @ [CHR 0x27] @ ''a#b'' @ [CHR 0x27] @ '' x''))
   \<and> byte CHR ''#'' < 128 \<and> byte CHR ''#'' = InlineComment conf_NewParams
   \<and> parseLine conf_NewParams (''k = '' @ [CHR 0x27] @ ''a#b'' @ [CHR 0x27] @ '' x'') 0
       = parseLine conf_NewParams (''k = '' @ [CHR 0x27] @ ''a'') 0"
proof -
  let ?line = "''k = '' @ [CHR 0x27] @ ''a#b'' @ [CHR 0x27] @ '' x''"
  let ?row = "\<lparr> tokens = [\<lparr> Start = 0, End = 1 \<rparr>, \<lparr> Start = 4, End = 6 \<rparr>] \<rparr>"
  have e: "parseLine conf_NewParams ?line 0 = Inr ?row"
    by code_simp
  have f: "first_stop conf_NewParams ?line = 6"
    by code_simp
  have m: "\<lparr> Start = 4, End = 6 \<rparr> \<in> set (tokens ?row)"
    by simp
  have h1: "byte CHR ''#'' < 128"
    by (simp add: byte_def)
  have h2: "byte CHR ''#'' = InlineComment conf_NewParams"
    by (simp add: byte_def conf_NewParams_def)
  from parseLine_stops_at_comment[where p = conf_NewParams and line = ?line and off = 0
      and row = ?row and t = "\<lparr> Start = 4, End = 6 \<rparr>"] e m
  have b: "End \<lparr> Start = 4, End = 6 \<rparr> \<le> 0 + int (first_stop conf_NewParams ?line)"
    by blast
  from parseLine_stops_at_comment[where p = conf_NewParams and off = 0 and c = "CHR ''#''"
      and a = "''k = '' @ [CHR 0x27] @ ''a''" and b = "''b'' @ [CHR 0x27] @ '' x''"] h1 h2
  have "parseLine conf_NewParams ((''k = '' @ [CHR 0x27] @ ''a'') @ CHR ''#'' # (''b'' @ [CHR 0x27] @ '' x'')) 0
       = parseLine conf_NewParams (''k = '' @ [CHR 0x27] @ ''a'') 0"
    by blast
  then have d: "parseLine conf_NewParams ?line 0
       = parseLine conf_NewParams (''k = '' @ [CHR 0x27] @ ''a'') 0"
    by simp
  show ?thesis
    using e f b h1 h2 d by (intro conjI) assumption+
qed

section \<open>The key-indexed lookup\<close>

lemma ReadString_Cons:
  "ReadString (ch # cs) =
     (if ch = CHR 0x0A then ([ch], False)
      else (ch # fst (ReadString cs), snd (ReadString cs)))"
  by (simp add: ReadString_def Let_def)

lemma split_lines_read:
  "split_lines rest =
     fst (ReadString rest)
       # (if snd (ReadString rest) then []
          else split_lines (drop (length (fst (ReadString rest))) rest))"
proof (induction rest)
  case Nil
  show ?case by (simp add: ReadString_def)
next
  case (Cons ch cs)
  show ?case
  proof (cases "ch = CHR 0x0A")
    case True
    then show ?thesis by (simp add: ReadString_Cons)
  next
    case False
    then show ?thesis
      by (subst split_lines.simps, subst Cons.IH) (simp add: ReadString_Cons)
  qed
qed

lemma inbuf_next:
  assumes "inbuf c rest offset"
  shows "inbuf c (drop (length (fst (ReadString rest))) rest)
           (offset + int (length (fst (ReadString rest))))"
proof -
  have "length (fst (ReadString rest)) \<le> length rest"
    by (rule ReadString_length)
  with assms show ?thesis
    by (auto simp: inbuf_def nat_add_distrib add.commute)
qed

lemma Raw_parsed_inbuf:
  assumes "inbuf c rest offset"
    and "parseLine (params c) (fst (ReadString rest)) offset = Inr row"
    and "HasColumn row col"
  shows "\<exists>raw. Raw c (Some row) col = Inr raw"
proof -
  let ?t = "tokens row ! nat col"
  have b: "offset \<le> Start ?t" "Start ?t < End ?t"
    "End ?t \<le> offset + int (length (fst (ReadString rest)))"
    using parseLine_tokens[OF assms(2) HasColumn_token[OF assms(3)]] by simp_all
  have "int (length rest) = int (length (conf c)) - offset"
    using assms(1) by (auto simp: inbuf_def)
  with b ReadString_length[of rest] assms(1)
  have "0 \<le> Start ?t" "End ?t \<le> int (length (conf c))"
    by (auto simp: inbuf_def)
  from Raw_in_bounds[OF assms(3) refl this(1) b(2) this(2)] show ?thesis by blast
qed

lemma line_match_inbuf:
  assumes "inbuf c rest offset"
  shows "line_match ToLower c keyCol key True (fst (ReadString rest)) offset
           = Inr (line_row ToLower c key (fst (ReadString rest), offset))"
proof (cases "parseLine (params c) (fst (ReadString rest)) offset")
  case (Inl e)
  then show ?thesis by (simp add: line_match_def line_row_def)
next
  case (Inr row)
  show ?thesis
  proof (cases "HasColumn row keyCol")
    case False
    with Inr show ?thesis by (simp add: line_match_def line_row_def)
  next
    case True
    from Raw_parsed_inbuf[OF assms Inr True] obtain raw
      where "Raw c (Some row) keyCol = Inr raw" by blast
    with Inr True show ?thesis
      by (auto simp: line_match_def line_row_def row_matches_def key_matches_def)
  qed
qed

lemma line_row_Nil: "line_row ToLower c key ([], off) = None"
  by (simp add: line_row_def parseLine_Nil)

lemma LookupRow_loop_rows:
  assumes "inbuf c rest offset"
  shows "case LookupRow_loop ToLower c keyCol key True rest offset of
           Inl e \<Rightarrow> e = ErrKeyNotFound
             \<and> List.map_filter (line_row ToLower c key) (with_offsets offset (split_lines rest)) = []
         | Inr (row, n) \<Rightarrow> offset < n \<and> inbuf c (drop (nat (n - offset)) rest) n
             \<and> List.map_filter (line_row ToLower c key) (with_offsets offset (split_lines rest))
                 = row # List.map_filter (line_row ToLower c key)
                           (with_offsets n (split_lines (drop (nat (n - offset)) rest)))"
  using assms
proof (induction ToLower c keyCol key True rest offset rule: LookupRow_loop.induct)
  case (1 ToLower c key rest offset)
  let ?line = "fst (ReadString rest)"
  let ?rest' = "drop (length ?line) rest"
  let ?n = "offset + int (length ?line)"
  have lm: "line_match ToLower c keyCol key True ?line offset
              = Inr (line_row ToLower c key (?line, offset))"
    using 1(2) by (rule line_match_inbuf)
  have nxt: "inbuf c ?rest' ?n"
    using 1(2) by (rule inbuf_next)
  have sp: "with_offsets offset (split_lines rest)
              = (?line, offset) # (if snd (ReadString rest) then []
                                   else with_offsets ?n (split_lines ?rest'))"
    by (subst split_lines_read) simp
  show ?case
  proof (cases "line_row ToLower c key (?line, offset)")
    case None
    show ?thesis
    proof (cases "snd (ReadString rest)")
      case True
      with None lm sp show ?thesis
        by (simp add: LookupRow_loop.simps[of _ _ _ _ _ rest] List.map_filter_simps)
    next
      case False
      have eq: "LookupRow_loop ToLower c keyCol key True rest offset
                  = LookupRow_loop ToLower c keyCol key True ?rest' ?n"
        using None lm False by (simp add: LookupRow_loop.simps[of _ _ _ _ _ rest])
      have rows: "List.map_filter (line_row ToLower c key) (with_offsets offset (split_lines rest))
                  = List.map_filter (line_row ToLower c key) (with_offsets ?n (split_lines ?rest'))"
        using None False sp by (simp add: List.map_filter_simps)
      have dr: "drop (nat (n - ?n)) ?rest' = drop (nat (n - offset)) rest" if "?n < n" for n
      proof -
        have "nat (n - ?n) + length ?line = nat (n - offset)"
          using that by linarith
        then show ?thesis by (simp only: drop_drop)
      qed
      note IH = 1(1)[OF lm[unfolded None] refl False nxt]
      show ?thesis
      proof (cases "LookupRow_loop ToLower c keyCol key True ?rest' ?n")
        case (Inl e)
        with IH show ?thesis unfolding eq rows by simp
      next
        case (Inr x)
        obtain row n where x: "x = (row, n)" by (cases x)
        from IH Inr x have "?n < n" by simp
        with IH Inr x dr[OF this] show ?thesis unfolding eq rows by simp
      qed
    qed
  next
    case (Some row)
    have ne: "?line \<noteq> []"
      using Some by (auto simp: line_row_Nil dest!: sym[of _ "[]"])
    have res: "LookupRow_loop ToLower c keyCol key True rest offset = Inr (row, ?n)"
      using Some lm by (simp add: LookupRow_loop.simps[of _ _ _ _ _ rest])
    have tail: "List.map_filter (line_row ToLower c key)
                  (if snd (ReadString rest) then [] else with_offsets ?n (split_lines ?rest'))
                = List.map_filter (line_row ToLower c key) (with_offsets ?n (split_lines ?rest'))"
    proof (cases "snd (ReadString rest)")
      case True
      then have "length ?line = length rest"
        using length_takeWhile_le[of "\<lambda>c. c \<noteq> CHR 0x0A" rest]
        by (auto simp: ReadString_def Let_def split: if_splits)
      then have "?rest' = []" by simp
      with True show ?thesis by (simp add: line_row_Nil List.map_filter_simps)
    next
      case False
      then show ?thesis by simp
    qed
    show ?thesis
      unfolding res using ne nxt Some sp tail
      by (simp add: List.map_filter_simps)
  qed
qed

lemma LookupRow_inbuf:
  assumes "0 \<le> offset" and "offset \<le> int (length (conf c))"
  shows "LookupRow ToLower c kc key ic offset
           = LookupRow_loop ToLower c kc key ic (drop (nat offset) (conf c)) offset"
  using assms by (simp add: LookupRow_def slice_def)

lemma LookupKey_loop_rows:
  assumes "0 \<le> offset" and "offset \<le> int (length (conf c))"
  shows "LookupKey_loop ToLower c key acc offset =
     (let rs = filter (\<lambda>row. HasColumn row valueCol)
                 (List.map_filter (line_row ToLower c key)
                    (with_offsets offset (split_lines (drop (nat offset) (conf c)))))
      in if rs = [] then (case acc of None \<Rightarrow> Inl ErrKeyNotFound | Some r \<Rightarrow> Inr r)
         else Inr (last rs))"
  using assms
proof (induction ToLower c key acc offset rule: LookupKey_loop.induct)
  case (1 ToLower c key acc offset)
  let ?rest = "drop (nat offset) (conf c)"
  let ?rows = "\<lambda>off rest. List.map_filter (line_row ToLower c key) (with_offsets off (split_lines rest))"
  have ib: "inbuf c ?rest offset"
    using 1(2,3) by (simp add: inbuf_def)
  have lr: "LookupRow ToLower c keyCol key True offset
              = LookupRow_loop ToLower c keyCol key True ?rest offset"
    using 1(2,3) by (rule LookupRow_inbuf)
  note rows = LookupRow_loop_rows[OF ib, of ToLower key]
  show ?case
  proof (cases "LookupRow_loop ToLower c keyCol key True ?rest offset")
    case (Inl e)
    with rows have "e = ErrKeyNotFound" and "?rows offset ?rest = []"
      by simp_all
    with Inl lr show ?thesis
      by (simp add: LookupKey_loop.simps[of _ _ _ _ offset])
  next
    case (Inr x)
    obtain r n where x: "x = (r, n)" by (cases x)
    let ?rest' = "drop (nat (n - offset)) ?rest"
    from rows Inr x have n: "offset < n" and ib': "inbuf c ?rest' n"
      and rs: "?rows offset ?rest = r # ?rows n ?rest'"
      by simp_all
    from ib' have n': "0 \<le> n" "n \<le> int (length (conf c))" and rest': "?rest' = drop (nat n) (conf c)"
      by (simp_all add: inbuf_def)
    have step: "LookupKey_loop ToLower c key acc offset
                  = LookupKey_loop ToLower c key (if HasColumn r valueCol then Some r else acc) n"
      using Inr x lr by (simp add: LookupKey_loop.simps[of _ _ _ _ offset])
    have res: "LookupRow ToLower c keyCol key True offset = Inr (r, n)"
      using Inr x lr by simp
    note IH = 1(1)[OF res refl n']
    show ?thesis
      unfolding step IH rs rest'[symmetric]
      by (simp add: Let_def)
  qed
qed

text \<open>
  Claim C9. For every buffer and key, \<open>LookupKey\<close> scans the whole buffer and returns the last row
  whose key column matches the key, case-insensitively on the raw column text, and that has a
  value column; matching rows without a value are skipped, and the lookup fails with
  \<open>ErrKeyNotFound\<close> when no matching row has a value. This holds for every case mapping
  \<open>ToLower\<close>.
\<close>

theorem LookupKey_last_value_row:
  "LookupKey ToLower c key = spec_LookupKey ToLower c key"
  using LookupKey_loop_rows[of 0 c ToLower key None]
  by (simp add: LookupKey_def spec_LookupKey_def value_rows_def matching_rows_def
      buffer_lines_def Let_def)

text \<open>
  A buffer with five lines for the key \<open>port\<close>: a key-only line, two lines with a value in
  different letter case, an unrelated line and another key-only line. The lookup returns the row
  of the fourth line, the last one with a value. On a buffer whose only match is a key-only line
  the lookup fails.
\<close>

theorem LookupKey_last_value_row_witness:
  "spec_LookupKey ascii_ToLower
      (New (''port'' @ [CHR 0x0A] @ '' Port = 1 # c'' @ [CHR 0x0A] @ ''x = 3'' @ [CHR 0x0A]
            @ ''PORT 22'' @ [CHR 0x0A] @ ''port # none'' @ [CHR 0x0A]) conf_NewParams) ''port''
     = Inr \<lparr> tokens = [\<lparr> Start = 25, End = 29 \<rparr>, \<lparr> Start = 30, End = 32 \<rparr>] \<rparr>
   \<and> spec_LookupKey ascii_ToLower (New (''port'' @ [CHR 0x0A] @ ''x = 1'') conf_NewParams) ''port''
     = Inl ErrKeyNotFound
   \<and> matching_rows ascii_ToLower (New (''port'' @ [CHR 0x0A] @ ''x = 1'') conf_NewParams) ''port''
     = [\<lparr> tokens = [\<lparr> Start = 0, End = 4 \<rparr>] \<rparr>]"
proof -
  have a: "LookupKey ascii_ToLower
      (New (''port'' @ [CHR 0x0A] @ '' Port = 1 # c'' @ [CHR 0x0A] @ ''x = 3'' @ [CHR 0x0A]
            @ ''PORT 22'' @ [CHR 0x0A] @ ''port # none'' @ [CHR 0x0A]) conf_NewParams) ''port''
     = Inr \<lparr> tokens = [\<lparr> Start = 25, End = 29 \<rparr>, \<lparr> Start = 30, End = 32 \<rparr>] \<rparr>"
    by code_simp
  have b: "LookupKey ascii_ToLower (New (''port'' @ [CHR 0x0A] @ ''x = 1'') conf_NewParams) ''port''
     = Inl ErrKeyNotFound"
    by code_simp
  have m: "matching_rows ascii_ToLower (New (''port'' @ [CHR 0x0A] @ ''x = 1'') conf_NewParams) ''port''
     = [\<lparr> tokens = [\<lparr> Start = 0, End = 4 \<rparr>] \<rparr>]"
    by code_simp
  show ?thesis
    using a b m unfolding LookupKey_last_value_row
    by (intro conjI) assumption+
qed

section \<open>Replacing a column in place\<close>

lemma SetRaw_splice:
  assumes "SetRaw c ro col v = Inr c'"
  shows "\<exists>row t. ro = Some row \<and> Row_Token row col = Inr t
           \<and> 0 \<le> Start t \<and> Start t < End t \<and> End t \<le> int (length (conf c))
           \<and> conf c' = take (nat (Start t)) (conf c) @ v @ drop (nat (End t)) (conf c)
           \<and> take (nat (Start t)) (conf c') = take (nat (Start t)) (conf c)
           \<and> drop (nat (Start t) + length v) (conf c') = drop (nat (End t)) (conf c)
           \<and> params c' = params c"
proof -
  from assms obtain row where ro: "ro = Some row"
    by (cases ro) (simp_all add: SetRaw_def)
  from assms ro obtain t where t: "Row_Token row col = Inr t"
    by (cases "Row_Token row col") (simp_all add: SetRaw_def)
  from assms ro t obtain sz where sz: "ValueSize t = Inr sz"
    by (cases "ValueSize t") (simp_all add: SetRaw_def Let_def)
  from sz have geo: "Start t \<le> End t" "sz = End t - Start t"
    by (auto simp: ValueSize_def split: if_splits)
  from assms ro t sz have pos: "0 < sz"
    by (auto simp: SetRaw_def Let_def split: if_splits)
  from assms ro t sz pos have sl: "0 \<le> Start t" "End t \<le> int (length (conf c))"
    and c': "c' = c\<lparr> conf := take (nat (Start t)) (conf c) @ v @ drop (nat (End t)) (conf c) \<rparr>"
    using geo by (auto simp: SetRaw_def Let_def slice_def split: if_splits sum.splits)
  have len: "nat (Start t) \<le> length (conf c)"
    using sl geo pos by linarith
  show ?thesis
    by (intro exI[of _ row] exI[of _ t]) (use ro t sl geo pos c' len in simp)
qed

lemma EnsureEndsWithEOL_conf:
  "params (EnsureEndsWithEOL c) = params c
   \<and> (\<exists>eol. conf (EnsureEndsWithEOL c) = conf c @ eol)"
  by (simp add: EnsureEndsWithEOL_def)

lemma LookupOrAppendK_params: "params (snd (LookupOrAppendK ToLower c key)) = params c"
  using EnsureEndsWithEOL_conf[of c]
  by (auto simp: LookupOrAppendK_def Append_def Let_def split: sum.splits)

lemma SetStringK_SetRawK:
  "SetStringK ToLower c key v =
     SetRawK ToLower c key
       (if AlwaysQuoteStrings (params c) \<or> HasQuotesOrWhitespace (params c) v
        then Quote (params c) v else v)"
  using LookupOrAppendK_params[of ToLower c key]
  by (cases "LookupOrAppendK ToLower c key")
     (auto simp: SetStringK_def SetRawK_def SetString_def Let_def split: sum.splits)

lemma split_lines_nonempty: "split_lines s \<noteq> []"
  by (induction s) (auto split: list.splits)

lemma concat_split_lines: "concat (split_lines s) = s"
  by (induction s) (auto split: list.splits)

lemma with_offsets_mem:
  "(l, off) \<in> set (with_offsets ofs ls) \<Longrightarrow>
   \<exists>a b. concat ls = a @ l @ b \<and> off = ofs + int (length a)"
proof (induction ls arbitrary: ofs)
  case Nil
  then show ?case by simp
next
  case (Cons x xs)
  from Cons.prems consider "l = x \<and> off = ofs"
    | "(l, off) \<in> set (with_offsets (ofs + int (length x)) xs)"
    by auto
  then show ?case
  proof cases
    case 1
    then have "concat (x # xs) = [] @ l @ concat xs \<and> off = ofs + int (length ([]::string))"
      by simp
    then show ?thesis by blast
  next
    case 2
    from Cons.IH[OF this] obtain a b where "concat xs = a @ l @ b"
      and "off = ofs + int (length x) + int (length a)"
      by blast
    then have "concat (x # xs) = (x @ a) @ l @ b \<and> off = ofs + int (length (x @ a))"
      by simp
    then show ?thesis by blast
  qed
qed

lemma buffer_lines_mem:
  assumes "(l, off) \<in> set (buffer_lines s)"
  shows "\<exists>pre post. s = pre @ l @ post \<and> off = int (length pre)"
  using with_offsets_mem[of l off 0 "split_lines s"] assms
  by (simp add: buffer_lines_def concat_split_lines)

lemma LookupKey_found:
  assumes "LookupKey ToLower c key = Inr row"
  shows "\<exists>pre line post. conf c = pre @ line @ post
           \<and> (line, int (length pre)) \<in> set (buffer_lines (conf c))
           \<and> parseLine (params c) line (int (length pre)) = Inr row"
proof -
  let ?ms = "List.map_filter (line_row ToLower c key) (buffer_lines (conf c))"
  let ?rs = "filter (\<lambda>row. HasColumn row valueCol) ?ms"
  have eq: "LookupKey ToLower c key = (if ?rs = [] then Inl ErrKeyNotFound else Inr (last ?rs))"
    using LookupKey_loop_rows[of 0 c ToLower key None]
    by (simp add: LookupKey_def buffer_lines_def Let_def)
  with assms have ne: "?rs \<noteq> []" and row: "row = last ?rs"
    by (auto split: if_splits)
  from ne have "last ?rs \<in> set ?rs" by (rule last_in_set)
  with row have "row \<in> set ?ms" by simp
  then obtain l where l: "l \<in> set (buffer_lines (conf c))"
    and lr: "line_row ToLower c key l = Some row"
    by (auto simp: List.map_filter_def)
  obtain line off where lo: "l = (line, off)" by (cases l)
  from lr lo have p: "parseLine (params c) line off = Inr row"
    by (auto simp: line_row_def split: sum.splits if_splits)
  from buffer_lines_mem[of line off "conf c"] l lo obtain pre post
    where "conf c = pre @ line @ post" and "off = int (length pre)"
    by blast
  with p l lo show ?thesis by blast
qed

lemma LookupKey_error:
  assumes "LookupKey ToLower c key = Inl e"
  shows "e = ErrKeyNotFound"
  using LookupKey_loop_rows[of 0 c ToLower key None] assms
  by (simp add: LookupKey_def Let_def split: if_splits)

lemma splice_in_line:
  assumes "length pre \<le> s" and "s < e" and "e \<le> length pre + length line"
  shows "take s (pre @ line @ post) @ w @ drop e (pre @ line @ post)
           = pre @ (take (s - length pre) line @ w @ drop (e - length pre) line) @ post"
proof -
  have "take s (pre @ line @ post) = pre @ take (s - length pre) line"
    using assms by simp
  moreover have "drop e (pre @ line @ post) = drop (e - length pre) line @ post"
    using assms by simp
  ultimately show ?thesis by simp
qed

lemma SetRaw_in_line:
  assumes sr: "SetRaw c (Some row) col w = Inr c'"
    and cf: "conf c = pre @ line @ post"
    and pl: "parseLine p line (int (length pre)) = Inr row"
  shows "\<exists>t. Row_Token row col = Inr t
           \<and> int (length pre) \<le> Start t \<and> Start t < End t
           \<and> End t \<le> int (length pre) + int (length line)
           \<and> conf c' = pre @ (take (nat (Start t) - length pre) line @ w
                               @ drop (nat (End t) - length pre) line) @ post
           \<and> params c' = params c"
proof -
  from SetRaw_splice[OF sr] obtain t where t: "Row_Token row col = Inr t"
    and c': "conf c' = take (nat (Start t)) (conf c) @ w @ drop (nat (End t)) (conf c)"
    and pc: "params c' = params c"
    by auto
  from t have mem: "t \<in> set (tokens row)"
    by (auto simp: Row_Token_def HasColumn_token split: if_splits)
  from parseLine_tokens[OF pl mem] have b: "int (length pre) \<le> Start t" "Start t < End t"
    "End t \<le> int (length pre) + int (length line)"
    by simp_all
  then have n: "length pre \<le> nat (Start t)" "nat (Start t) < nat (End t)"
    "nat (End t) \<le> length pre + length line"
    by linarith+
  from splice_in_line[OF n] c' cf
  have "conf c' = pre @ (take (nat (Start t) - length pre) line @ w
                               @ drop (nat (End t) - length pre) line) @ post"
    by simp
  with t b pc show ?thesis by blast
qed

lemma EnsureEndsWithEOL_eol:
  "conf (EnsureEndsWithEOL c) = conf c @ eol_of (conf c) \<and> params (EnsureEndsWithEOL c) = params c"
  by (simp add: EnsureEndsWithEOL_def eol_of_def)

lemma SetRawK_exact:
  assumes "SetRawK ToLower k key w = (None, k')"
  shows "(\<exists>row t pre line post.
            LookupKey ToLower k key = Inr row \<and> Row_Token row valueCol = Inr t
            \<and> conf k = pre @ line @ post
            \<and> (line, int (length pre)) \<in> set (buffer_lines (conf k))
            \<and> parseLine (params k) line (int (length pre)) = Inr row
            \<and> int (length pre) \<le> Start t \<and> Start t < End t
            \<and> End t \<le> int (length pre) + int (length line)
            \<and> conf k' = pre @ (take (nat (Start t) - length pre) line @ w
                                @ drop (nat (End t) - length pre) line) @ post
            \<and> params k' = params k)
         \<or> (\<exists>row t pre line.
            LookupKey ToLower k key = Inl ErrKeyNotFound \<and> Row_Token row valueCol = Inr t
            \<and> pre = conf k @ eol_of (conf k)
            \<and> line = key @ DefaultDelim (params k) @ [CHR 0x27, CHR 0x27]
            \<and> parseLine (params k) line (int (length pre)) = Inr row
            \<and> int (length pre) \<le> Start t \<and> Start t < End t
            \<and> End t \<le> int (length pre) + int (length line)
            \<and> conf k' = pre @ (take (nat (Start t) - length pre) line @ w
                                @ drop (nat (End t) - length pre) line)
            \<and> params k' = params k)"
proof -
  from assms obtain row c1 where la: "LookupOrAppendK ToLower k key = (Inr row, c1)"
    and sr: "SetRaw c1 (Some row) valueCol w = Inr k'"
    by (auto simp: SetRawK_def split: prod.splits sum.splits)
  show ?thesis
  proof (cases "LookupKey ToLower k key")
    case (Inr r)
    with la have r: "r = row" and c1: "c1 = k"
      by (simp_all add: LookupOrAppendK_def)
    from LookupKey_found[OF Inr[unfolded r]] obtain pre line post
      where cf: "conf k = pre @ line @ post"
        and bl: "(line, int (length pre)) \<in> set (buffer_lines (conf k))"
        and pl: "parseLine (params k) line (int (length pre)) = Inr row"
      by blast
    from SetRaw_in_line[OF sr[unfolded c1] cf pl] Inr r cf bl pl
    show ?thesis by blast
  next
    case (Inl e)
    from LookupKey_error[OF Inl] have e: "e = ErrKeyNotFound" .
    let ?c0 = "EnsureEndsWithEOL k"
    let ?pre = "conf k @ eol_of (conf k)"
    let ?line = "key @ DefaultDelim (params k) @ [CHR 0x27, CHR 0x27]"
    note e0 = EnsureEndsWithEOL_eol[of k]
    from la Inl e have ap: "Append k [key, [CHR 0x27, CHR 0x27]] = (Inr row, c1)"
      by (simp add: LookupOrAppendK_def)
    then have pl: "parseLine (params k) ?line (int (length ?pre)) = Inr row"
      and c1: "c1 = ?c0\<lparr> conf := ?pre @ ?line \<rparr>"
      using e0 by (auto simp: Append_def Let_def split: sum.splits)
    have cf: "conf c1 = ?pre @ ?line @ []" and pc: "params c1 = params k"
      using c1 e0 by simp_all
    from SetRaw_in_line[OF sr cf pl] Inl e pl pc
    show ?thesis by auto
  qed
qed

lemma SetK_raw:
  "SetIntK ToLower k key n = SetRawK ToLower k key (Itoa n)"
  "SetInt64K ToLower k key n = SetRawK ToLower k key (Itoa n)"
  "SetFloat64K FormatFloat ToLower k key x = SetRawK ToLower k key (FormatFloat x)"
  "SetTrueFalseK ToLower k key b = SetRawK ToLower k key (if b then ''true'' else ''false'')"
  "SetOnOffK ToLower k key b = SetRawK ToLower k key (if b then ''on'' else ''off'')"
  "SetYesNoK ToLower k key b = SetRawK ToLower k key (if b then ''yes'' else ''no'')"
  unfolding SetIntK_def SetInt64K_def SetFloat64K_def SetTrueFalseK_def SetOnOffK_def
    SetYesNoK_def SetRawK_def SetInt_def SetInt64_def SetFloat64_def Let_def
  by (rule refl)+

text \<open>
  Claim C2. A successful \<open>SetRaw\<close> changes only the bytes in the token's range \<open>[Start, End)\<close>:
  the new buffer is the old one with that range replaced by the new value, so every byte
  before \<open>Start\<close> and every byte from \<open>End\<close> onward is unchanged. Hence for any single
  successful \<open>SetXxxK\<close> call: when the key is found, the buffer is \<open>pre @ line @ post\<close>, where
  \<open>line\<close> is the line of the row that \<open>LookupKey\<close> returns, and the new buffer is
  \<open>pre @ line' @ post\<close>, where \<open>line'\<close> is \<open>line\<close> with the bytes of its value token replaced by
  the new raw text; every other line is byte-identical, and so is the text of the edited line
  outside the token (indentation, key, trailing comment). When the key is not found, the whole
  old buffer is kept, a newline is added if the buffer does not end with one, and the line
  \<open>key = ''\<close> is appended with the bytes of its value token replaced. \<open>SetStringK\<close>, \<open>SetIntK\<close>,
  \<open>SetInt64K\<close>, \<open>SetFloat64K\<close>, \<open>SetTrueFalseK\<close>, \<open>SetOnOffK\<close> and \<open>SetYesNoK\<close> are \<open>SetRawK\<close>
  on the raw text they format.
\<close>

theorem SetRaw_frame:
  "(SetRaw c ro col v = Inr c' \<longrightarrow>
      (\<exists>row t. ro = Some row \<and> Row_Token row col = Inr t
         \<and> 0 \<le> Start t \<and> Start t < End t \<and> End t \<le> int (length (conf c))
         \<and> conf c' = take (nat (Start t)) (conf c) @ v @ drop (nat (End t)) (conf c)
         \<and> take (nat (Start t)) (conf c') = take (nat (Start t)) (conf c)
         \<and> drop (nat (Start t) + length v) (conf c') = drop (nat (End t)) (conf c)
         \<and> params c' = params c))
   \<and> (SetRawK ToLower k key w = (None, k') \<longrightarrow>
        ((\<exists>row t pre line post.
            LookupKey ToLower k key = Inr row \<and> Row_Token row valueCol = Inr t
            \<and> conf k = pre @ line @ post
            \<and> (line, int (length pre)) \<in> set (buffer_lines (conf k))
            \<and> parseLine (params k) line (int (length pre)) = Inr row
            \<and> int (length pre) \<le> Start t \<and> Start t < End t
            \<and> End t \<le> int (length pre) + int (length line)
            \<and> conf k' = pre @ (take (nat (Start t) - length pre) line @ w
                                @ drop (nat (End t) - length pre) line) @ post
            \<and> params k' = params k)
         \<or> (\<exists>row t pre line.
            LookupKey ToLower k key = Inl ErrKeyNotFound \<and> Row_Token row valueCol = Inr t
            \<and> pre = conf k @ eol_of (conf k)
            \<and> line = key @ DefaultDelim (params k) @ [CHR 0x27, CHR 0x27]
            \<and> parseLine (params k) line (int (length pre)) = Inr row
            \<and> int (length pre) \<le> Start t \<and> Start t < End t
            \<and> End t \<le> int (length pre) + int (length line)
            \<and> conf k' = pre @ (take (nat (Start t) - length pre) line @ w
                                @ drop (nat (End t) - length pre) line)
            \<and> params k' = params k)))
   \<and> SetStringK ToLower k key w =
       SetRawK ToLower k key
         (if AlwaysQuoteStrings (params k) \<or> HasQuotesOrWhitespace (params k) w
          then Quote (params k) w else w)
   \<and> SetIntK ToLower k key n = SetRawK ToLower k key (Itoa n)
   \<and> SetInt64K ToLower k key n = SetRawK ToLower k key (Itoa n)
   \<and> SetFloat64K FormatFloat ToLower k key x = SetRawK ToLower k key (FormatFloat x)
   \<and> SetTrueFalseK ToLower k key b = SetRawK ToLower k key (if b then ''true'' else ''false'')
   \<and> SetOnOffK ToLower k key b = SetRawK ToLower k key (if b then ''on'' else ''off'')
   \<and> SetYesNoK ToLower k key b = SetRawK ToLower k key (if b then ''yes'' else ''no'')"
  using SetRaw_splice[of c ro col v c'] SetRawK_exact[of ToLower k key w k']
    SetStringK_SetRawK[of ToLower k key w] SetK_raw
  by (intro conjI impI) assumption+

text \<open>
  Replacing the port of a two-line buffer keeps indentation, comment and the other line; so
  does setting \<open>ssl\<close> by key in another letter case; setting a missing key appends a line.
\<close>

theorem SetRaw_frame_witness:
  "SetRaw (New (''  port = 5432   # the port'' @ [CHR 0x0A] @ ''ssl = off'') conf_NewParams)
      (Some \<lparr> tokens = [\<lparr> Start = 2, End = 6 \<rparr>, \<lparr> Start = 9, End = 13 \<rparr>] \<rparr>) 1 ''61000''
     = Inr (New (''  port = 61000   # the port'' @ [CHR 0x0A] @ ''ssl = off'') conf_NewParams)
   \<and> take 9 (''  port = 61000   # the port'' @ [CHR 0x0A] @ ''ssl = off'') = ''  port = ''
   \<and> drop (9 + length ''61000'') (''  port = 61000   # the port'' @ [CHR 0x0A] @ ''ssl = off'')
       = ''   # the port'' @ [CHR 0x0A] @ ''ssl = off''
   \<and> SetRawK ascii_ToLower (New (''  port = 5432   # the port'' @ [CHR 0x0A] @ ''ssl = off'') conf_NewParams) ''SSL'' ''on''
       = (None, (New (''  port = 5432   # the port'' @ [CHR 0x0A] @ ''ssl = on'') conf_NewParams))
   \<and> ((\<exists>row t pre line post.
            LookupKey ascii_ToLower (New (''  port = 5432   # the port'' @ [CHR 0x0A] @ ''ssl = off'') conf_NewParams) ''SSL'' = Inr row \<and> Row_Token row valueCol = Inr t
            \<and> conf (New (''  port = 5432   # the port'' @ [CHR 0x0A] @ ''ssl = off'') conf_NewParams) = pre @ line @ post
            \<and> (line, int (length pre)) \<in> set (buffer_lines (conf (New (''  port = 5432   # the port'' @ [CHR 0x0A] @ ''ssl = off'') conf_NewParams)))
            \<and> parseLine (params (New (''  port = 5432   # the port'' @ [CHR 0x0A] @ ''ssl = off'') conf_NewParams)) line (int (length pre)) = Inr row
            \<and> int (length pre) \<le> Start t \<and> Start t < End t
            \<and> End t \<le> int (length pre) + int (length line)
            \<and> conf (New (''  port = 5432   # the port'' @ [CHR 0x0A] @ ''ssl = on'') conf_NewParams) = pre @ (take (nat (Start t) - length pre) line @ ''on''
                                @ drop (nat (End t) - length pre) line) @ post
            \<and> params (New (''  port = 5432   # the port'' @ [CHR 0x0A] @ ''ssl = on'') conf_NewParams) = params (New (''  port = 5432   # the port'' @ [CHR 0x0A] @ ''ssl = off'') conf_NewParams))
         \<or> (\<exists>row t pre line.
            LookupKey ascii_ToLower (New (''  port = 5432   # the port'' @ [CHR 0x0A] @ ''ssl = off'') conf_NewParams) ''SSL'' = Inl ErrKeyNotFound \<and> Row_Token row valueCol = Inr t
            \<and> pre = conf (New (''  port = 5432   # the port'' @ [CHR 0x0A] @ ''ssl = off'') conf_NewParams) @ eol_of (conf (New (''  port = 5432   # the port'' @ [CHR 0x0A] @ ''ssl = off'') conf_NewParams))
            \<and> line = ''SSL'' @ DefaultDelim (params (New (''  port = 5432   # the port'' @ [CHR 0x0A] @ ''ssl = off'') conf_NewParams)) @ [CHR 0x27, CHR 0x27]
            \<and> parseLine (params (New (''  port = 5432   # the port'' @ [CHR 0x0A] @ ''ssl = off'') conf_NewParams)) line (int (length pre)) = Inr row
            \<and> int (length pre) \<le> Start t \<and> Start t < End t
            \<and> End t \<le> int (length pre) + int (length line)
            \<and> conf (New (''  port = 5432   # the port'' @ [CHR 0x0A] @ ''ssl = on'') conf_NewParams) = pre @ (take (nat (Start t) - length pre) line @ ''on''
                                @ drop (nat (End t) - length pre) line)
            \<and> params (New (''  port = 5432   # the port'' @ [CHR 0x0A] @ ''ssl = on'') conf_NewParams) = params (New (''  port = 5432   # the port'' @ [CHR 0x0A] @ ''ssl = off'') conf_NewParams)))
   \<and> SetOnOffK ascii_ToLower (New (''  port = 5432   # the port'' @ [CHR 0x0A] @ ''ssl = off'') conf_NewParams) ''fsync'' True
       = (None, (New (''  port = 5432   # the port'' @ [CHR 0x0A] @ ''ssl = off'' @ [CHR 0x0A] @ ''fsync = on'') conf_NewParams))"
proof -
  let ?c = "New (''  port = 5432   # the port'' @ [CHR 0x0A] @ ''ssl = off'') conf_NewParams"
  let ?c' = "New (''  port = 61000   # the port'' @ [CHR 0x0A] @ ''ssl = off'') conf_NewParams"
  let ?k1 = "New (''  port = 5432   # the port'' @ [CHR 0x0A] @ ''ssl = on'') conf_NewParams"
  let ?k2 = "New (''  port = 5432   # the port'' @ [CHR 0x0A] @ ''ssl = off'' @ [CHR 0x0A] @ ''fsync = on'') conf_NewParams"
  let ?row = "\<lparr> tokens = [\<lparr> Start = 2, End = 6 \<rparr>, \<lparr> Start = 9, End = 13 \<rparr>] \<rparr>"
  have h: "SetRaw ?c (Some ?row) 1 ''61000'' = Inr ?c'"
    by (simp add: SetRaw_def Row_Token_def HasColumn_def ValueSize_def slice_def New_def)
  have g: "SetRawK ascii_ToLower ?c ''SSL'' ''on'' = (None, ?k1)"
    by code_simp
  have f: "SetRawK ascii_ToLower ?c ''fsync'' ''on'' = (None, ?k2)"
    by code_simp
  note frame = SetRaw_frame[where c = ?c and ro = "Some ?row" and col = 1 and v = "''61000''"
      and c' = ?c' and ToLower = ascii_ToLower and k = ?c and key = "''SSL''" and w = "''on''"
      and k' = ?k1]
  from frame[THEN conjunct1] h have
    "take 9 (conf ?c') = take 9 (conf ?c)
     \<and> drop (9 + length ''61000'') (conf ?c') = drop 13 (conf ?c)"
    by (simp add: Row_Token_def HasColumn_def)
  then have a: "take 9 (''  port = 61000   # the port'' @ [CHR 0x0A] @ ''ssl = off'') = ''  port = ''"
    and b: "drop (9 + length ''61000'') (''  port = 61000   # the port'' @ [CHR 0x0A] @ ''ssl = off'')
       = ''   # the port'' @ [CHR 0x0A] @ ''ssl = off''"
    by (simp_all add: New_def)
  from frame[THEN conjunct2, THEN conjunct1] g have d: "(\<exists>row t pre line post.
            LookupKey ascii_ToLower ?c ''SSL'' = Inr row \<and> Row_Token row valueCol = Inr t
            \<and> conf ?c = pre @ line @ post
            \<and> (line, int (length pre)) \<in> set (buffer_lines (conf ?c))
            \<and> parseLine (params ?c) line (int (length pre)) = Inr row
            \<and> int (length pre) \<le> Start t \<and> Start t < End t
            \<and> End t \<le> int (length pre) + int (length line)
            \<and> conf ?k1 = pre @ (take (nat (Start t) - length pre) line @ ''on''
                                @ drop (nat (End t) - length pre) line) @ post
            \<and> params ?k1 = params ?c)
         \<or> (\<exists>row t pre line.
            LookupKey ascii_ToLower ?c ''SSL'' = Inl ErrKeyNotFound \<and> Row_Token row valueCol = Inr t
            \<and> pre = conf ?c @ eol_of (conf ?c)
            \<and> line = ''SSL'' @ DefaultDelim (params ?c) @ [CHR 0x27, CHR 0x27]
            \<and> parseLine (params ?c) line (int (length pre)) = Inr row
            \<and> int (length pre) \<le> Start t \<and> Start t < End t
            \<and> End t \<le> int (length pre) + int (length line)
            \<and> conf ?k1 = pre @ (take (nat (Start t) - length pre) line @ ''on''
                                @ drop (nat (End t) - length pre) line)
            \<and> params ?k1 = params ?c)"
    by blast
  from SetRaw_frame[where ToLower = ascii_ToLower and k = ?c and key = "''fsync''" and b = True,
      THEN conjunct2, THEN conjunct2, THEN conjunct2, THEN conjunct2, THEN conjunct2,
      THEN conjunct2, THEN conjunct2, THEN conjunct1]
  have "SetOnOffK ascii_ToLower ?c ''fsync'' True = SetRawK ascii_ToLower ?c ''fsync'' ''on''"
    by simp
  with f have e: "SetOnOffK ascii_ToLower ?c ''fsync'' True = (None, ?k2)"
    by simp
  show ?thesis
    using h a b g d e by (intro conjI) assumption+
qed

end
